theory Spec2Isabelle
  imports Main "HOL-Library.Sublist"
begin

unbundle bit_operations_syntax

section \<open>The rene file renamer: a shallow embedding of rene.py\<close>

text \<open>
  File names, command arguments and name fragments are Python \<open>str\<close> values; they are
  modelled as \<open>string\<close> (lists of 8-bit characters), read as ASCII text. The character
  classes \<open>isdigit\<close>, \<open>isalpha\<close> and \<open>islower\<close> are Python's restricted to ASCII.
  Python integers are unbounded and are modelled as \<open>int\<close>. Every exception that the
  modelled code can raise is a value of \<open>py_error\<close>; a function that can raise returns
  \<open>py_error + 'a\<close>. Printing to the console is not modelled.
\<close>

subsection \<open>Exceptions and Python primitives\<close>

datatype py_error =
    IndexError
  | ValueError
  | TypeError
  | KeyError
  | AttributeError
  | UnboundLocalError
  | NameError
  | SystemExit
  | NoneReturned
    \<comment> \<open>a function fell off its end and returned \<open>None\<close> where its callers need a string\<close>

definition ord :: "char \<Rightarrow> int" where
  "ord c = int (of_char c)"

definition chr :: "int \<Rightarrow> char" where
  "chr n = char_of (nat n)"

definition isdigit :: "char \<Rightarrow> bool" where
  "isdigit c = (48 \<le> ord c \<and> ord c \<le> 57)"

definition islower :: "char \<Rightarrow> bool" where
  "islower c = (97 \<le> ord c \<and> ord c \<le> 122)"

definition isupper :: "char \<Rightarrow> bool" where
  "isupper c = (65 \<le> ord c \<and> ord c \<le> 90)"

definition isalpha :: "char \<Rightarrow> bool" where
  "isalpha c = (islower c \<or> isupper c)"

definition newline :: char where
  "newline = CHR 0x0A"

text \<open>Decimal rendering: \<open>'%d' % v\<close> and \<open>'%0*d' % (w, v)\<close>.\<close>

definition digit_chr :: "nat \<Rightarrow> char" where
  "digit_chr d = char_of (48 + d)"

fun str_of_nat :: "nat \<Rightarrow> string" where
  "str_of_nat n = (if n < 10 then [digit_chr n] else str_of_nat (n div 10) @ [digit_chr (n mod 10)])"

declare str_of_nat.simps [simp del]

definition fmt_d :: "int \<Rightarrow> string" where
  "fmt_d v = (if v < 0 then CHR ''-'' # str_of_nat (nat (- v)) else str_of_nat (nat v))"

definition fmt_0d :: "int \<Rightarrow> int \<Rightarrow> string" where
  \<comment> \<open>a negative width left-justifies and pads with blanks, as C's printf does\<close>
  "fmt_0d w v =
     (if w < 0 then fmt_d v @ replicate (nat (- w) - length (fmt_d v)) CHR '' ''
      else (if v < 0 then ''-'' else '''')
           @ replicate (nat w - length (fmt_d v)) CHR ''0''
           @ str_of_nat (nat \<bar>v\<bar>))"

text \<open>\<open>int(sn)\<close> on a string of ASCII digits.\<close>

definition digit_val :: "char \<Rightarrow> int" where
  "digit_val c = ord c - 48"

definition int_of_digits :: "string \<Rightarrow> int" where
  "int_of_digits sn = foldl (\<lambda>acc c. 10 * acc + digit_val c) 0 sn"

subsection \<open>nextName: the increment primitive\<close>

text \<open>
  In the digit branch the source searches \<open>str[offset:]\<close> with the regular expression
  \<open>(.*?)([0-9]+$)\<close>. The second group is the maximal run of digits at the end; the first
  group is what precedes it back to the last line break, since \<open>.\<close> does not match a
  line break and the search takes the leftmost start. The search fails exactly when
  \<open>str[offset:]\<close> is empty, and the function then returns \<open>None\<close>.
\<close>

definition trailing_digits :: "string \<Rightarrow> string" where
  "trailing_digits t = rev (takeWhile isdigit (rev t))"

definition after_last_newline :: "string \<Rightarrow> string" where
  "after_last_newline t = rev (takeWhile (\<lambda>c. c \<noteq> newline) (rev t))"

definition nextName :: "string \<Rightarrow> int \<Rightarrow> nat \<Rightarrow> py_error + string" where
  "nextName str step offset =
     (if str = [] then Inl IndexError
      else if isdigit (last str) then
        (let t = drop offset str in
         if t = [] then Inl NoneReturned
         else
           (let sn = trailing_digits t;
                g0 = after_last_newline (take (length t - length sn) t);
                v = int_of_digits sn + step
            in Inr (take offset str @ g0 @ fmt_0d (int (length sn)) v)))
      else if isalpha (last str) then
        (let firstChr = (if islower (last str) then CHR ''a'' else CHR ''A'');
             lastChr = (if islower (last str) then CHR ''z'' else CHR ''Z'');
             end = ord lastChr;
             nextord = ord (last str) + step mod 26
         in if step < 0 then
              Inr (butlast str @ (if nextord > end then [chr (nextord - 26)] else [lastChr, chr nextord]))
            else
              Inr (butlast str @ (if nextord > end then [firstChr, chr (nextord - 26)] else [chr nextord])))
      else Inr (str @ fmt_d step))"

subsection \<open>Numeric command parameters: int(), scanint\<close>

text \<open>
  \<open>int(s, base)\<close> for an explicit base, as CPython parses it: blanks around the
  number, one sign, the base prefix \<open>0x\<close> or \<open>0b\<close> when it fits the base (with one
  underscore allowed after it), then digits of the base with single underscores between
  them. Anything else raises \<open>ValueError\<close>.
\<close>

definition isspace :: "char \<Rightarrow> bool" where
  "isspace c = ((9 \<le> ord c \<and> ord c \<le> 13) \<or> (28 \<le> ord c \<and> ord c \<le> 32))"

definition digit_value :: "char \<Rightarrow> int" where
  "digit_value c =
     (if isdigit c then ord c - 48
      else if islower c then ord c - 87
      else if isupper c then ord c - 55
      else 36)"

definition underscore :: char where
  "underscore = CHR ''_''"

fun double_underscore :: "string \<Rightarrow> bool" where
  "double_underscore (a # b # cs) = ((a = underscore \<and> b = underscore) \<or> double_underscore (b # cs))"
| "double_underscore _ = False"

definition strip_base_prefix :: "int \<Rightarrow> string \<Rightarrow> string" where
  "strip_base_prefix base s =
     (case s of
        z # p # r \<Rightarrow>
          if z = CHR ''0'' \<and>
             ((base = 16 \<and> (p = CHR ''x'' \<or> p = CHR ''X'')) \<or>
              (base = 8 \<and> (p = CHR ''o'' \<or> p = CHR ''O'')) \<or>
              (base = 2 \<and> (p = CHR ''b'' \<or> p = CHR ''B'')))
          then (case r of u # r' \<Rightarrow> if u = underscore then r' else r | [] \<Rightarrow> r)
          else s
      | _ \<Rightarrow> s)"

definition py_int :: "int \<Rightarrow> string \<Rightarrow> py_error + int" where
  "py_int base s =
     (let s1 = dropWhile isspace s;
          neg = (s1 \<noteq> [] \<and> hd s1 = CHR ''-'');
          s2 = (if s1 \<noteq> [] \<and> (hd s1 = CHR ''+'' \<or> hd s1 = CHR ''-'') then tl s1 else s1);
          s3 = strip_base_prefix base s2;
          isdig = (\<lambda>c. digit_value c < base \<or> c = underscore);
          body = takeWhile isdig s3;
          rest = dropWhile isdig s3
      in if body = [] \<or> hd body = underscore \<or> last body = underscore
            \<or> double_underscore body \<or> dropWhile isspace rest \<noteq> []
         then Inl ValueError
         else (let n = foldl (\<lambda>acc c. base * acc + digit_value c) 0
                         (filter (\<lambda>c. c \<noteq> underscore) body)
               in Inr (if neg then - n else n)))"

definition scanint :: "string \<Rightarrow> py_error + int" where
  "scanint str =
     (if str = [] then Inr 0
      else
        (let v = (if hd str \<noteq> CHR ''-'' then str else tl str) in
         if v = [] then Inl IndexError
         else
           (case (if hd v \<noteq> CHR ''0'' then py_int 10 v
                  else if length v > 1 \<and> (v ! 1 = CHR ''x'' \<or> v ! 1 = CHR ''X'') then py_int 16 v
                  else py_int 2 v)
            of Inl e \<Rightarrow> Inl e
             | Inr n \<Rightarrow> Inr (if hd str \<noteq> CHR ''-'' then n else - n))))"

subsection \<open>Rules: parameter lists\<close>

text \<open>
  A rule's working list is a Python list whose first item is the rule letter and whose
  other items are integers or strings.
\<close>

datatype pval = PInt int | PStr string

definition I_START :: nat where "I_START = 1"
definition I_STEP :: nat where "I_STEP = 2"
definition I_WIDTH :: nat where "I_WIDTH = 3"
definition I_MODE :: nat where "I_MODE = 4"
definition I_RELOAD :: nat where "I_RELOAD = 5"
definition I_E :: int where "I_E = 1"
definition I_R :: int where "I_R = 2"

definition rvAdd :: string where "rvAdd = '':''"
definition rvRule :: string where "rvRule = ''?''"
definition rvSkip :: string where "rvSkip = ''/''"
definition rvCopy :: string where "rvCopy = ''*''"
definition rvars :: string where "rvars = rvAdd @ rvRule @ rvSkip @ rvCopy"
definition consumers :: string where "consumers = rvRule @ rvSkip @ rvCopy"

definition sliceRule :: string where "sliceRule = ''S''"
definition bumpRule :: string where "bumpRule = ''B''"
definition incRule :: string where "incRule = ''I''"

definition repRules :: "string \<rightharpoonup> pval list" where
  "repRules =
     [sliceRule \<mapsto> [PStr rvRule, PInt 2, PInt 2, PInt 0],
      bumpRule \<mapsto> [PStr rvRule, PInt 1, PInt 0],
      incRule \<mapsto> [PStr rvAdd, PInt 0, PInt 1, PInt 1, PInt 0, PInt 0]]"

text \<open>\<open>str.split(sep)\<close> for a one-character separator.\<close>

fun split_chr :: "char \<Rightarrow> string \<Rightarrow> string list" where
  "split_chr sep [] = [[]]"
| "split_chr sep (c # cs) =
     (if c = sep then [] # split_chr sep cs
      else (case split_chr sep cs of
              w # ws \<Rightarrow> (c # w) # ws
            | [] \<Rightarrow> [[c]]))"

definition bitmapChars :: "string \<Rightarrow> string \<Rightarrow> int" where
  "bitmapChars str pat =
     foldl (\<lambda>bm (idx, c). if c \<in> set str then bm OR push_bit idx 1 else bm) 0 (enumerate 0 pat)"

text \<open>
  The parameter loop of prepRule, over the indices \<open>1 ..< len(defRule)\<close>. A parameter is
  converted by scanint when it starts with a digit, or with \<open>-\<close> and then a digit.
\<close>

fun prepRule_params :: "pval list \<Rightarrow> nat list \<Rightarrow> pval list \<Rightarrow> py_error + pval list" where
  "prepRule_params defRule [] wlist = Inr wlist"
| "prepRule_params defRule (i # is) wlist =
     (if int i > int (length wlist) - 1 then prepRule_params defRule is (wlist @ [defRule ! i])
      else
        (case wlist ! i of
           PInt n \<Rightarrow> Inl TypeError
         | PStr v \<Rightarrow>
             if v = [] then prepRule_params defRule is (wlist[i := defRule ! i])
             else if isdigit (hd v) then
               (case scanint v of Inl e \<Rightarrow> Inl e
                | Inr n \<Rightarrow> prepRule_params defRule is (wlist[i := PInt n]))
             else if hd v = CHR ''-'' then
               (if length v < 2 then Inl IndexError
                else if isdigit (v ! 1) then
                  (case scanint v of Inl e \<Rightarrow> Inl e
                   | Inr n \<Rightarrow> prepRule_params defRule is (wlist[i := PInt n]))
                else prepRule_params defRule is wlist)
             else prepRule_params defRule is wlist))"

definition prepRule :: "string \<Rightarrow> pval list \<Rightarrow> string \<Rightarrow> py_error + pval list" where
  "prepRule arg defRule rvType =
     (let wlist = map PStr (split_chr CHR ''/'' arg) in
      if (case hd wlist of PStr w \<Rightarrow> length w > 1 | PInt _ \<Rightarrow> False) then Inl ValueError
      else if defRule = [] then Inl IndexError
      else if defRule ! 0 \<noteq> PStr rvType then Inl ValueError
      else
        (case prepRule_params defRule [1 ..< length defRule] wlist of
           Inl e \<Rightarrow> Inl e
         | Inr wl \<Rightarrow>
             if arg = [] then Inl IndexError
             else if hd arg = CHR ''I'' then
               (if length wl \<le> I_MODE then Inl IndexError
                else if wl ! I_MODE = PInt 0 then Inr wl
                else
                  (case wl ! I_MODE of
                     PInt n \<Rightarrow> Inl AttributeError
                   | PStr m \<Rightarrow>
                       if length wl \<le> I_RELOAD then Inl IndexError
                       else Inr ((wl[I_MODE := PInt (bitmapChars m ''ER'')])[I_RELOAD := wl ! I_START])))
             else Inr wl))"

subsection \<open>greedyext: root and extensions\<close>

text \<open>
  The source matches \<open>(\.*[^.]+)(\..+)*\<close> at the start of the name. The first group is
  the leading dots and the characters up to the next dot; the second group, when the dot
  is followed by at least one character of the same line, is that dot and the rest of
  the line. Without a match both parts are empty.
\<close>

definition dot :: char where
  "dot = CHR ''.''"

definition greedyext :: "string \<Rightarrow> string \<times> string" where
  "greedyext str =
     (let dots = takeWhile (\<lambda>c. c = dot) str;
          rest = dropWhile (\<lambda>c. c = dot) str;
          body = takeWhile (\<lambda>c. c \<noteq> dot) rest;
          tail = dropWhile (\<lambda>c. c \<noteq> dot) rest
      in if body = [] then ([], [])
         else (dots @ body,
               (case tail of
                  [] \<Rightarrow> []
                | d # t \<Rightarrow>
                    (let line = takeWhile (\<lambda>c. c \<noteq> newline) t
                     in if line = [] then [] else d # line))))"

subsection \<open>Collision avoidance\<close>

text \<open>
  The \<open>-X\<close> option's globals. The names on disk are seen through \<open>os.path.exists\<close>,
  a parameter \<open>exists\<close> of the model; newList holds the names queued in this directory.
\<close>

record options =
  caStop :: bool
  caContinue :: bool
  caPun :: string
  caPunPos :: int
  caMerge :: bool
  caStart :: string

text \<open>
  The loop \<open>for i in range(100)\<close> of avoid. Its state is \<open>rootExt[0]\<close> and rootLen;
  rootLen is assigned in iteration 0 before it is read.
\<close>

function avoid_loop ::
  "options \<Rightarrow> (string \<Rightarrow> bool) \<Rightarrow> string list \<Rightarrow> nat \<Rightarrow> string \<Rightarrow> string \<Rightarrow> nat \<Rightarrow> nat
     \<Rightarrow> py_error + string" where
  "avoid_loop opts exists newList caPunLen ext root rootLen i =
     (if i \<ge> 100 then Inr (root @ ext)
      else
        (let root1 = (if caPunLen \<noteq> 0 then root @ caPun opts else root);
             tname = root1 @ ext
         in if tname \<notin> set newList \<and> \<not> exists tname then Inr (root1 @ ext)
            else if i > 9 then Inr []
            else
              (let root2 = (if caPunLen \<noteq> 0 then take (length root1 - caPunLen) root1 else root1)
               in if caMerge opts then
                    (case nextName root2 1 0 of
                       Inl e \<Rightarrow> Inl e
                     | Inr r \<Rightarrow> avoid_loop opts exists newList caPunLen ext r rootLen (i + 1))
                  else if i = 0 then
                    avoid_loop opts exists newList caPunLen ext (root2 @ caStart opts) (length root2) (i + 1)
                  else
                    (case nextName root2 1 rootLen of
                       Inl e \<Rightarrow> Inl e
                     | Inr r \<Rightarrow> avoid_loop opts exists newList caPunLen ext r rootLen (i + 1)))))"
  by pat_completeness auto
termination
  by (relation "measure (\<lambda>(opts, exists, newList, caPunLen, ext, root, rootLen, i). 100 - i)") auto

declare avoid_loop.simps [simp del]

definition avoid :: "options \<Rightarrow> (string \<Rightarrow> bool) \<Rightarrow> string list \<Rightarrow> string \<Rightarrow> py_error + string" where
  "avoid opts exists newList name =
     (let (root, ext) = greedyext name;
          root0 = (if caPun opts \<noteq> [] \<and> caPunPos opts = 0 then caPun opts @ root
                   else if caPun opts \<noteq> [] \<and> caPunPos opts = 1 then root @ caPun opts
                   else root);
          caPunLen = (if caPun opts \<noteq> [] \<and> caPunPos opts = 2 then length (caPun opts) else 0)
      in avoid_loop opts exists newList caPunLen ext root0 0 0)"

text \<open>
  The names that the search tests, written as a sequence: candidate 0 is the decorated
  root with the extension, candidate \<open>k + 1\<close> comes from candidate \<open>k\<close> by one pass
  through the modifying half of the loop body. \<open>ca_root\<close> is the pair of
  \<open>rootExt[0]\<close> (without a suffix decoration) and rootLen after \<open>k\<close> modifications.
\<close>

definition decorated_root :: "options \<Rightarrow> string \<Rightarrow> string" where
  "decorated_root opts name =
     (let root = fst (greedyext name)
      in if caPun opts \<noteq> [] \<and> caPunPos opts = 0 then caPun opts @ root
         else if caPun opts \<noteq> [] \<and> caPunPos opts = 1 then root @ caPun opts
         else root)"

definition suffix_pun :: "options \<Rightarrow> string" where
  "suffix_pun opts = (if caPun opts \<noteq> [] \<and> caPunPos opts = 2 then caPun opts else [])"

fun ca_root :: "options \<Rightarrow> string \<Rightarrow> nat \<Rightarrow> py_error + (string \<times> nat)" where
  "ca_root opts name 0 = Inr (decorated_root opts name, 0)"
| "ca_root opts name (Suc k) =
     (case ca_root opts name k of
        Inl e \<Rightarrow> Inl e
      | Inr (root, rootLen) \<Rightarrow>
          if caMerge opts then
            (case nextName root 1 0 of Inl e \<Rightarrow> Inl e | Inr r \<Rightarrow> Inr (r, rootLen))
          else if k = 0 then Inr (root @ caStart opts, length root)
          else (case nextName root 1 rootLen of Inl e \<Rightarrow> Inl e | Inr r \<Rightarrow> Inr (r, rootLen)))"

definition ca_candidate :: "options \<Rightarrow> string \<Rightarrow> nat \<Rightarrow> py_error + string" where
  "ca_candidate opts name k =
     (case ca_root opts name k of
        Inl e \<Rightarrow> Inl e
      | Inr (root, rootLen) \<Rightarrow> Inr (root @ suffix_pun opts @ snd (greedyext name)))"

text \<open>
  Going through a list of candidates in order: the first one that is not taken is the
  result, an exception while a candidate is computed ends the search, and the empty name
  is the result when every candidate is taken.
\<close>

fun first_free :: "(string \<Rightarrow> bool) \<Rightarrow> (py_error + string) list \<Rightarrow> py_error + string" where
  "first_free taken [] = Inr []"
| "first_free taken (Inl e # cs) = Inl e"
| "first_free taken (Inr t # cs) = (if taken t then first_free taken cs else Inr t)"

text \<open>The values that the module gives the \<open>-X\<close> globals before the command is read.\<close>

definition default_options :: options where
  "default_options =
     \<lparr>caStop = False, caContinue = False, caPun = [], caPunPos = 1, caMerge = False,
      caStart = ''0''\<rparr>"

subsection \<open>The compiled filter\<close>

text \<open>
  The source builds a regular expression string from the filter argument and hands it to
  Python's \<open>re\<close>. The embedding keeps the pieces that the compilation appends as
  tokens: a literal character (\<open>\.\<close> is the literal dot), \<open>(.*?)\<close>, \<open>(.)\<close> and
  \<open>([^.]*)\<close>; the closing \<open>$\<close> is the end of the token list. It covers a filter
  argument without an extension part (no \<open>/\<close>, so that filArgx is empty) and without
  the option \<open>-O\<close>. The other characters of the filter go into the expression as they
  are; the tokens give their meaning when they are not operators of \<open>re\<close>
  (\<open>plain_filter\<close>).
\<close>

datatype retok =
    RLit char
  | RLazy
  | ROne
  | RNoDot



definition lower :: "char \<Rightarrow> char" where
  "lower c = (if isupper c then chr (ord c + 32) else c)"

definition ceq :: "bool \<Rightarrow> char \<Rightarrow> char \<Rightarrow> bool" where
  "ceq ignorecase a b = (if ignorecase then lower a = lower b else a = b)"

text \<open>
  \<open>re.match\<close>: the backtracking matcher, anchored at the start. \<open>.\<close> matches any
  character but a line break; \<open>(.*?)\<close> tries the shortest capture first and
  \<open>([^.]*)\<close> the longest; \<open>$\<close> matches at the end and before a line break that ends
  the name. The result is the groups of the first match found.
\<close>

fun rmatch :: "bool \<Rightarrow> retok list \<Rightarrow> string \<Rightarrow> string list option" where
  "rmatch ic [] s = (if s = [] \<or> s = [newline] then Some [] else None)"
| "rmatch ic (RLit c # ts) s =
     (case s of
        [] \<Rightarrow> None
      | x # xs \<Rightarrow> if ceq ic c x then rmatch ic ts xs else None)"
| "rmatch ic (ROne # ts) s =
     (case s of
        [] \<Rightarrow> None
      | x # xs \<Rightarrow> if x = newline then None else map_option (Cons [x]) (rmatch ic ts xs))"
| "rmatch ic (RLazy # ts) s =
     (case rmatch ic ts s of
        Some gs \<Rightarrow> Some ([] # gs)
      | None \<Rightarrow>
          (case s of
             [] \<Rightarrow> None
           | x # xs \<Rightarrow>
               if x = newline then None
               else (case rmatch ic (RLazy # ts) xs of
                       Some (g # gs) \<Rightarrow> Some ((x # g) # gs)
                     | _ \<Rightarrow> None)))"
| "rmatch ic (RNoDot # ts) s =
     (case s of
        [] \<Rightarrow> map_option (Cons []) (rmatch ic ts [])
      | x # xs \<Rightarrow>
          if x = dot then map_option (Cons []) (rmatch ic ts s)
          else (case rmatch ic (RNoDot # ts) xs of
                  Some (g # gs) \<Rightarrow> Some ((x # g) # gs)
                | _ \<Rightarrow> map_option (Cons []) (rmatch ic ts s)))"

text \<open>
  The loop over the characters of filArg that builds filRe and counts the floaters.
\<close>

fun filRe_loop :: "string \<Rightarrow> retok list \<times> int \<Rightarrow> retok list \<times> int" where
  "filRe_loop [] acc = acc"
| "filRe_loop (c # cs) (filRe, maxFloat) =
     (if c = dot then filRe_loop cs (filRe @ [RLit dot], maxFloat)
      else if c = CHR ''*'' then filRe_loop cs (filRe @ [RLazy], maxFloat + 1)
      else if c = CHR ''?'' then filRe_loop cs (filRe @ [ROne], maxFloat + 1)
      else filRe_loop cs (filRe @ [RLit c], maxFloat))"

definition compile_filter :: "string \<Rightarrow> py_error + (retok list \<times> int)" where
  "compile_filter filArg =
     (if filArg = [] then Inl IndexError
      else if length filArg \<ge> 2 \<and> drop (length filArg - 2) filArg = ''*.'' then
        (let (filRe, maxFloat) = filRe_loop (take (length filArg - 2) filArg) ([], 0)
         in Inr (filRe @ [RNoDot], maxFloat))
      else if last filArg = dot then Inr (filRe_loop (butlast filArg) ([], - 1))
      else Inr (filRe_loop filArg ([], - 1)))"

subsection \<open>The replacement and the rule arguments\<close>

text \<open>
  \<open>re.split\<close> of the replacement on the variables \<open>: ? / *\<close>, without the empty
  pieces.
\<close>

fun split_rvars :: "string \<Rightarrow> string \<Rightarrow> string list" where
  "split_rvars [] lit = (if lit = [] then [] else [lit])"
| "split_rvars (c # cs) lit =
     (if c \<in> set rvars then (if lit = [] then [] else [lit]) @ [[c]] @ split_rvars cs []
      else split_rvars cs (lit @ [c]))"

fun last_consumer :: "(nat \<times> string) list \<Rightarrow> nat option \<Rightarrow> nat option" where
  "last_consumer [] mc = mc"
| "last_consumer ((i, v) # ivs) mc = last_consumer ivs (if sublist v consumers then Some i else mc)"

text \<open>
  The loop over the rule arguments. \<open>exit(1)\<close> is the exception \<open>SystemExit\<close>;
  KeyError and ValueError are caught and end in \<open>exit(1)\<close> as well.
\<close>

fun prep_rules ::
  "string list \<Rightarrow> string list \<Rightarrow> pval list list \<times> nat list
     \<Rightarrow> py_error + (pval list list \<times> nat list)" where
  "prep_rules rulevars [] (rules, irules) = Inr (rules, irules)"
| "prep_rules rulevars (arg # args) (rules, irules) =
     (let rvIdx = length rules in
      if arg = [] then Inl IndexError
      else if length rulevars \<le> rvIdx then Inl SystemExit
      else
        (case repRules [hd arg] of
           None \<Rightarrow> Inl SystemExit
         | Some defRule \<Rightarrow>
             (case prepRule arg defRule (rulevars ! rvIdx) of
                Inl e \<Rightarrow> Inl (if e = ValueError \<or> e = KeyError then SystemExit else e)
              | Inr wlist \<Rightarrow>
                  prep_rules rulevars args
                    (rules @ [wlist],
                     if wlist \<noteq> [] \<and> hd wlist = PStr ''I'' then irules @ [rvIdx] else irules))))"

text \<open>The globals of native mode after the command is processed.\<close>

record program =
  filter_re :: "retok list"
  filterCase :: bool
  noDotName :: bool
  oOpt :: "int list"
  lrep :: "string list"
  maxFloat :: int
  maxConsumer :: "nat option"

definition illegal_filter_chars :: string where
  "illegal_filter_chars =
     [CHR ''<'', CHR ''>'', CHR ''|'', CHR 0x22, CHR '','', CHR 0x5C, CHR '';'', CHR '':'', CHR ''/'']"

definition illegal_replacement_chars :: string where
  "illegal_replacement_chars =
     [CHR ''<'', CHR ''>'', CHR ''|'', CHR 0x22, CHR '','', CHR 0x5C, CHR '';'']"

definition native_setup ::
  "bool \<Rightarrow> string \<Rightarrow> string \<Rightarrow> string list
     \<Rightarrow> py_error + (program \<times> pval list list \<times> nat list)" where
  "native_setup fCase filArg aRep ruleArgs =
     (if \<exists>c\<in>set filArg. c \<in> set illegal_filter_chars then Inl SystemExit
      else if \<exists>c\<in>set aRep. c \<in> set illegal_replacement_chars then Inl SystemExit
      else if sublist ''**'' filArg then Inl SystemExit
      else
        (case compile_filter filArg of
           Inl e \<Rightarrow> Inl e
         | Inr (filRe, mf) \<Rightarrow>
             (let lr = split_rvars aRep [];
                  rulevars = filter (\<lambda>rep. rep = rvRule \<or> rep = rvAdd) lr
              in case prep_rules rulevars ruleArgs ([], []) of
                   Inl e \<Rightarrow> Inl e
                 | Inr (rules, irules) \<Rightarrow>
                     if length rules < length rulevars then Inl SystemExit
                     else
                       Inr (\<lparr>filter_re = filRe, filterCase = fCase,
                             noDotName = (take 2 filArg = ''*.''), oOpt = [],
                             lrep = lr, maxFloat = mf,
                             maxConsumer = last_consumer (enumerate 0 lr) None\<rparr>,
                            rules, irules))))"

subsection \<open>native: the replacement synthesizer\<close>

definition bnd :: "py_error + 'a \<Rightarrow> ('a \<Rightarrow> py_error + 'b) \<Rightarrow> py_error + 'b" where
  "bnd m f = (case m of Inl e \<Rightarrow> Inl e | Inr v \<Rightarrow> f v)"

text \<open>Python indexing and slicing of a sequence with integer bounds.\<close>

definition py_index :: "'a list \<Rightarrow> int \<Rightarrow> py_error + 'a" where
  "py_index xs i =
     (let n = int (length xs); j = (if i < 0 then i + n else i)
      in if 0 \<le> j \<and> j < n then Inr (xs ! nat j) else Inl IndexError)"

definition slice_bound :: "nat \<Rightarrow> int \<Rightarrow> nat" where
  "slice_bound n i = (if i < 0 then nat (max 0 (i + int n)) else min (nat i) n)"

definition py_slice :: "'a list \<Rightarrow> int \<Rightarrow> int \<Rightarrow> 'a list" where
  \<comment> \<open>\<open>xs[lo:hi]\<close>\<close>
  "py_slice xs lo hi =
     (let l = slice_bound (length xs) lo; h = slice_bound (length xs) hi
      in take (h - l) (drop l xs))"

definition py_slice_to :: "'a list \<Rightarrow> int \<Rightarrow> 'a list" where
  \<comment> \<open>\<open>xs[:hi]\<close>\<close>
  "py_slice_to xs hi = take (slice_bound (length xs) hi) xs"

definition py_slice_from :: "'a list \<Rightarrow> int \<Rightarrow> 'a list" where
  \<comment> \<open>\<open>xs[lo:]\<close>\<close>
  "py_slice_from xs lo = drop (slice_bound (length xs) lo) xs"

definition as_int :: "pval \<Rightarrow> py_error + int" where
  \<comment> \<open>an operand of integer arithmetic; a string there raises TypeError\<close>
  "as_int v = (case v of PInt n \<Rightarrow> Inr n | PStr s \<Rightarrow> Inl TypeError)"

definition bound_src :: "string option \<Rightarrow> py_error + string" where
  \<comment> \<open>reading the local variable src, which is unbound until a consumer assigns it\<close>
  "bound_src s = (case s of None \<Rightarrow> Inl UnboundLocalError | Some v \<Rightarrow> Inr v)"

text \<open>
  The state of the loop over lrep: the name so far, the two cursors, the local \<open>src\<close>
  (which keeps its value from one token to the next) and the global rules, which the
  Insert-Increment rule updates in place.
\<close>

record nstate =
  newName :: string
  floatIdx :: nat
  ridx :: nat
  src :: "string option"
  rules :: "pval list list"

text \<open>
  The second half of the loop body, after the comment "End of rep in consumers": the
  rule at ridx is applied and ridx advances. The three branches of the \<open>if\<close> on the
  rule letter are \<open>slice_rule\<close>, \<open>bump_rule\<close> and \<open>inc_rule\<close>.
\<close>

definition slice_rule :: "nstate \<Rightarrow> pval list \<Rightarrow> py_error + nstate" where
  "slice_rule st rule =
     bnd (py_index rule 3) (\<lambda>mode.
     bnd (py_index rule 1) (\<lambda>p1.
     bnd (py_index rule 2) (\<lambda>p2.
     if mode = PInt 0 then
       bnd (bound_src (src st)) (\<lambda>s.
       bnd (as_int p1) (\<lambda>a.
       bnd (as_int p2) (\<lambda>b.
       Inr (st\<lparr>newName := newName st @ py_slice_to s a @ py_slice_from s (- b)\<rparr>))))
     else
       (case (p1, p2) of
          (PInt a, PInt b) \<Rightarrow>
            bnd (bound_src (src st)) (\<lambda>s. Inr (st\<lparr>newName := newName st @ py_slice s a b\<rparr>))
        | (PStr a, PStr b) \<Rightarrow> bnd (bound_src (src st)) (\<lambda>s. Inl TypeError)
        | _ \<Rightarrow> Inl TypeError))))"

definition bump_rule :: "nstate \<Rightarrow> pval list \<Rightarrow> py_error + nstate" where
  "bump_rule st rule =
     bnd (bound_src (src st)) (\<lambda>s.
     let (root, ext) = greedyext s in
     bnd (py_index rule 2) (\<lambda>pmode.
     if root = [] then Inl IndexError
     else
       (let bsel = (if isalpha (last root) then 1 else if isdigit (last root) then 2 else 4) in
        bnd (as_int pmode) (\<lambda>mode.
        if mode AND bsel \<noteq> 0 then
          (if mode AND push_bit 4 bsel = 0 then Inr (st\<lparr>newName := newName st @ s\<rparr>)
           else if ext \<noteq> [] then Inr (st\<lparr>newName := newName st @ ext\<rparr>)
           else Inr st)
        else
          bnd (py_index rule 1) (\<lambda>pstep.
          bnd (as_int pstep) (\<lambda>step.
          bnd (nextName root step 0) (\<lambda>n.
          Inr (st\<lparr>newName := newName st @ n @ ext\<rparr>))))))))"

definition inc_value :: "pval list \<Rightarrow> py_error + (string \<times> pval list)" where
  \<comment> \<open>the inserted text and the rule with its start value advanced\<close>
  "inc_value rule =
     bnd (py_index rule (int I_START)) (\<lambda>start.
     case start of
       PInt v \<Rightarrow>
         bnd (py_index rule (int I_WIDTH)) (\<lambda>pw.
         bnd (as_int pw) (\<lambda>w.
         bnd (py_index rule (int I_STEP)) (\<lambda>pstep.
         bnd (as_int pstep) (\<lambda>step.
         Inr (fmt_0d w v, rule[I_START := PInt (v + step)])))))
     | PStr a \<Rightarrow>
         bnd (py_index rule (int I_STEP)) (\<lambda>pstep.
         bnd (as_int pstep) (\<lambda>step.
         bnd (nextName a step 0) (\<lambda>n.
         Inr (a, rule[I_START := PStr n])))))"

definition inc_rule :: "nstate \<Rightarrow> pval list \<Rightarrow> py_error + nstate" where
  "inc_rule st rule =
     bnd (inc_value rule) (\<lambda>(incName, rule').
     bnd (py_index rule' (int I_MODE)) (\<lambda>pmode.
     bnd (as_int pmode) (\<lambda>mode.
     let rules' = (rules st)[ridx st := rule'] in
     if mode AND I_E \<noteq> 0 then Inr (st\<lparr>newName := newName st @ incName, rules := rules'\<rparr>)
     else
       (let (root, ext) = greedyext (newName st)
        in Inr (st\<lparr>newName := root @ incName @ ext, rules := rules'\<rparr>)))))"

definition apply_rule :: "nstate \<Rightarrow> py_error + nstate" where
  "apply_rule st =
     bnd (py_index (rules st) (int (ridx st))) (\<lambda>rule.
     bnd (py_index rule 0) (\<lambda>rid.
     bnd (if rid = PStr sliceRule then slice_rule st rule
          else if rid = PStr bumpRule then bump_rule st rule
          else if rid = PStr incRule then inc_rule st rule
          else Inr st) (\<lambda>st'.
     Inr (st'\<lparr>ridx := ridx st' + 1\<rparr>))))"

text \<open>One pass through the loop body for the token rep at position idx of lrep.\<close>

definition native_token :: "program \<Rightarrow> string list \<Rightarrow> nat \<times> string \<Rightarrow> nstate \<Rightarrow> py_error + nstate" where
  "native_token prog floaters ir st =
     (let idx = fst ir; rep = snd ir in
      if \<not> sublist rep rvars then Inr (st\<lparr>newName := newName st @ rep\<rparr>)
      else if sublist rep consumers then
        (if int (floatIdx st) > maxFloat prog then Inr st
         else
           bnd (case maxConsumer prog of None \<Rightarrow> Inl NameError | Some mc \<Rightarrow> Inr mc) (\<lambda>mc.
           bnd (if idx = mc \<and> int (floatIdx st) < maxFloat prog
                then Inr (concat (drop (floatIdx st) floaters))
                else py_index floaters (int (floatIdx st))) (\<lambda>s.
           let st1 = st\<lparr>src := Some s, floatIdx := floatIdx st + 1\<rparr> in
           if rep = rvCopy then Inr (st1\<lparr>newName := newName st1 @ s\<rparr>)
           else if rep = rvSkip \<or> s = [] then Inr st1
           else apply_rule st1)))
      else apply_rule st)"

fun native_loop :: "program \<Rightarrow> string list \<Rightarrow> (nat \<times> string) list \<Rightarrow> nstate \<Rightarrow> py_error + nstate" where
  "native_loop prog floaters [] st = Inr st"
| "native_loop prog floaters (ir # irs) st =
     bnd (native_token prog floaters ir st) (native_loop prog floaters irs)"

text \<open>
  The first lines of native: the name passes when the compiled filter matches it and it
  is not a dot name that noDotName excludes. The result is the list of floaters.
\<close>

definition native_filter :: "program \<Rightarrow> string \<Rightarrow> py_error + string list option" where
  "native_filter prog old =
     (case rmatch (filterCase prog) (filter_re prog) old of
        None \<Rightarrow> Inr None
      | Some groups \<Rightarrow>
          if noDotName prog then
            (if old = [] then Inl IndexError
             else if hd old = dot then Inr None
             else Inr (Some groups))
          else Inr (Some groups))"

definition native :: "program \<Rightarrow> pval list list \<Rightarrow> string \<Rightarrow> py_error + (string \<times> pval list list)" where
  "native prog rls old =
     bnd (native_filter prog old) (\<lambda>m.
     case m of
       None \<Rightarrow> Inr ([], rls)
     | Some groups \<Rightarrow>
         bnd (if oOpt prog = [] then Inr groups
              else foldr (\<lambda>idx acc. bnd (py_index groups idx) (\<lambda>g. bnd acc (\<lambda>gs. Inr (g # gs))))
                     (oOpt prog) (Inr [])) (\<lambda>floaters.
         bnd (native_loop prog floaters (enumerate 0 (lrep prog))
                \<lparr>newName = [], floatIdx = 0, ridx = 0, src = None, rules = rls\<rparr>) (\<lambda>st.
         Inr (newName st, rules st))))"

subsection \<open>procDir: one directory\<close>

text \<open>
  What procDir sees of the file system: the listing from getdir, \<open>os.path.exists\<close>
  and \<open>os.path.samefile\<close>, and \<open>eligible\<close> for the tests at the head of the loop body
  (file type against opdirs, rene's own files, the exclusions of \<open>-F\<close>). The embedding
  is of native mode (no \<open>-S\<close>, no \<open>-E\<close>) and ends where the loop over the files ends:
  the lists oldList and newList are the renames that the rest of procDir asks about,
  writes to reneAct and carries out, always returning 0.
\<close>

record directory =
  dirlist :: "string list"
  eligible :: "string \<Rightarrow> bool"
  exists :: "string \<Rightarrow> bool"
  samefile :: "string \<Rightarrow> string \<Rightarrow> bool"

datatype collision = Stop | Skip | Name string

text \<open>The block "Collision Avoidance" of the loop body, up to the test for an empty name.\<close>

definition resolve_collision ::
  "options \<Rightarrow> directory \<Rightarrow> string list \<Rightarrow> string \<Rightarrow> string \<Rightarrow> py_error + collision" where
  "resolve_collision opts d newList old new =
     (if exists d new \<and> \<not> samefile d old new then
        (if caStop opts \<or> caContinue opts then Inr (if caStop opts then Stop else Skip)
         else bnd (avoid opts (exists d) newList new) (\<lambda>n. Inr (Name n)))
      else if new \<in> set newList then bnd (avoid opts (exists d) newList new) (\<lambda>n. Inr (Name n))
      else Inr (Name new))"

fun procDir_loop ::
  "program \<Rightarrow> options \<Rightarrow> directory \<Rightarrow> string list
     \<Rightarrow> string list \<times> string list \<times> pval list list
     \<Rightarrow> py_error + (int \<times> string list \<times> string list \<times> pval list list)" where
  "procDir_loop prog opts d [] (oldList, newList, rls) = Inr (0, oldList, newList, rls)"
| "procDir_loop prog opts d (old # rest) (oldList, newList, rls) =
     (if \<not> eligible d old then procDir_loop prog opts d rest (oldList, newList, rls)
      else
        bnd (native prog rls old) (\<lambda>(new, rls').
        if new = [] then procDir_loop prog opts d rest (oldList, newList, rls')
        else if new = old then procDir_loop prog opts d rest (oldList, newList, rls')
        else
          bnd (resolve_collision opts d newList old new) (\<lambda>c.
          case c of
            Stop \<Rightarrow> Inr (1, oldList, newList, rls')
          | Skip \<Rightarrow> procDir_loop prog opts d rest (oldList, newList, rls')
          | Name n \<Rightarrow>
              if n = [] then
                (if caStop opts then Inr (1, oldList, newList, rls')
                 else procDir_loop prog opts d rest (oldList, newList, rls'))
              else procDir_loop prog opts d rest (oldList @ [old], newList @ [n], rls'))))"

definition procDir ::
  "program \<Rightarrow> options \<Rightarrow> directory \<Rightarrow> pval list list
     \<Rightarrow> py_error + (int \<times> string list \<times> string list \<times> pval list list)" where
  "procDir prog opts d rls = procDir_loop prog opts d (dirlist d) ([], [], rls)"

subsection \<open>procTree: the recursive traversal\<close>

text \<open>
  The first loop of procTree: every rule listed in irules whose mode has the bit I_R
  gets its start value back from the reload value.
\<close>

fun reload_rules :: "nat list \<Rightarrow> pval list list \<Rightarrow> py_error + pval list list" where
  "reload_rules [] rls = Inr rls"
| "reload_rules (idx # idxs) rls =
     bnd (py_index rls (int idx)) (\<lambda>rule.
     bnd (py_index rule (int I_MODE)) (\<lambda>pmode.
     bnd (as_int pmode) (\<lambda>mode.
     if mode AND I_R \<noteq> 0 then
       bnd (py_index rule (int I_RELOAD)) (\<lambda>rv.
       if length rule \<le> I_START then Inl IndexError
       else reload_rules idxs (rls[idx := rule[I_START := rv]]))
     else reload_rules idxs rls)))"

text \<open>
  A directory tree: the directory and the subdirectories that the traversal enters, in
  the order of getdir (those that pass the include and exclude lists of \<open>-R\<close>). The
  result is the return code, the rules and, for every directory visited, the pairs of
  oldList and newList.
\<close>

datatype tree = Tree directory "tree list"

fun procTree ::
  "program \<Rightarrow> options \<Rightarrow> nat list \<Rightarrow> nat \<Rightarrow> nat \<Rightarrow> tree \<Rightarrow> pval list list
     \<Rightarrow> py_error + (int \<times> pval list list \<times> (string \<times> string) list list)"
and procTree_subdirs ::
  "program \<Rightarrow> options \<Rightarrow> nat list \<Rightarrow> nat \<Rightarrow> nat \<Rightarrow> tree list \<Rightarrow> int \<Rightarrow> pval list list
     \<Rightarrow> py_error + (int \<times> pval list list \<times> (string \<times> string) list list)" where
  "procTree prog opts irules rDepth curDepth (Tree d subdirs) rls =
     bnd (reload_rules irules rls) (\<lambda>rls1.
     bnd (procDir prog opts d rls1) (\<lambda>(ret, oldList, newList, rls2).
     if ret \<noteq> 0 then Inr (1, rls2, [zip oldList newList])
     else if curDepth \<ge> rDepth then Inr (0, rls2, [zip oldList newList])
     else
       bnd (procTree_subdirs prog opts irules rDepth (curDepth + 1) subdirs 0 rls2)
         (\<lambda>(ret', rls3, log). Inr (ret', rls3, zip oldList newList # log))))"
| "procTree_subdirs prog opts irules rDepth curDepth [] ret rls = Inr (ret, rls, [])"
| "procTree_subdirs prog opts irules rDepth curDepth (t # ts) ret rls =
     bnd (procTree prog opts irules rDepth curDepth t rls) (\<lambda>(ret', rls', log).
     if ret' \<noteq> 0 then Inr (ret', rls', log)
     else
       bnd (procTree_subdirs prog opts irules rDepth curDepth ts ret' rls')
         (\<lambda>(ret'', rls'', log'). Inr (ret'', rls'', log @ log')))"

text \<open>The positions in lrep of the variables that need a rule, from left to right.\<close>

definition rule_positions :: "string list \<Rightarrow> nat list" where
  "rule_positions lr = filter (\<lambda>i. lr ! i = rvRule \<or> lr ! i = rvAdd) [0 ..< length lr]"





text \<open>
  Insert-Increment rules in the rules list: a rule is one when its letter is I, and its
  mode has the reload bit when \<open>rules[idx][I_MODE] & I_R\<close> is not zero. Two rules lists
  are related by \<open>start_only\<close> when the second comes from the first by assignments to
  \<open>rules[idx][I_START]\<close> alone.
\<close>

definition is_inc :: "pval list \<Rightarrow> bool" where
  "is_inc r = (r \<noteq> [] \<and> hd r = PStr incRule)"

definition has_R :: "pval list \<Rightarrow> bool" where
  "has_R r = (case r ! I_MODE of PInt m \<Rightarrow> m AND I_R \<noteq> 0 | PStr s \<Rightarrow> False)"

definition start_only :: "pval list list \<Rightarrow> pval list list \<Rightarrow> bool" where
  "start_only rls rls' =
     (length rls' = length rls \<and>
      (\<forall>i<length rls. length (rls' ! i) = length (rls ! i) \<and>
         (\<forall>k<length (rls ! i). k \<noteq> I_START \<longrightarrow> rls' ! i ! k = rls ! i ! k)))"

text \<open>
  The command of the recursive test with two inserters, \<open>my* my*:: I/A///R I/5/10/2\<close>,
  and a directory with the two files that every directory of that test holds.
\<close>

definition pets_directory :: directory where
  "pets_directory =
     \<lparr>dirlist = [''my_Cat.png'', ''my_Dog.png''],
      eligible = (\<lambda>n. True),
      exists = (\<lambda>n. n \<in> set [''my_Cat.png'', ''my_Dog.png'']),
      samefile = (\<lambda>a b. a = b)\<rparr>"

definition pets_program :: program where
  "pets_program =
     \<lparr>filter_re = [RLit CHR ''m'', RLit CHR ''y'', RLazy], filterCase = True,
      noDotName = False, oOpt = [], lrep = [''my'', ''*'', '':'', '':''], maxFloat = 0,
      maxConsumer = Some 1\<rparr>"








section \<open>Verified properties\<close>

subsection \<open>Characters\<close>

lemma ord_chr: "0 \<le> n \<Longrightarrow> n < 256 \<Longrightarrow> ord (chr n) = n"
  by (simp add: ord_def chr_def)

lemma ord_letters:
  "ord CHR ''a'' = 97" "ord CHR ''z'' = 122" "ord CHR ''A'' = 65" "ord CHR ''Z'' = 90"
  by (simp_all add: ord_def)

lemma isalpha_not_isdigit: "isalpha c \<Longrightarrow> \<not> isdigit c"
  by (auto simp: isalpha_def isdigit_def islower_def isupper_def)

lemma islower_chr_iff: "0 \<le> k \<Longrightarrow> k < 256 \<Longrightarrow> islower (chr k) = (97 \<le> k \<and> k \<le> 122)"
  by (simp add: islower_def ord_chr)

lemma isalpha_chr_iff:
  "0 \<le> k \<Longrightarrow> k < 256 \<Longrightarrow> isalpha (chr k) = (97 \<le> k \<and> k \<le> 122 \<or> 65 \<le> k \<and> k \<le> 90)"
  by (simp add: isalpha_def islower_def isupper_def ord_chr)

lemma letter_consts:
  "islower CHR ''a''" "islower CHR ''z''" "\<not> islower CHR ''A''" "\<not> islower CHR ''Z''"
  "isalpha CHR ''a''" "isalpha CHR ''z''" "isalpha CHR ''A''" "isalpha CHR ''Z''"
  by (simp_all add: islower_def isupper_def isalpha_def ord_def)

subsection \<open>The increment primitive\<close>

lemma nextName_alpha:
  assumes "s \<noteq> []" "isalpha (last s)"
  shows "\<exists>tl. nextName s step offset = Inr (butlast s @ tl) \<and> (length tl = 1 \<or> length tl = 2)
           \<and> (\<forall>c\<in>set tl. isalpha c \<and> islower c = islower (last s))"
proof -
  have nd: "\<not> isdigit (last s)" using assms(2) by (rule isalpha_not_isdigit)
  define m where "m = step mod 26"
  have m: "0 \<le> m" "m < 26" by (simp_all add: m_def)
  define n where "n = ord (last s)"
  show ?thesis
  proof (cases "islower (last s)")
    case True
    then have b: "97 \<le> n" "n \<le> 122" by (simp_all add: islower_def n_def)
    have eq: "nextName s step offset =
        Inr (butlast s @ (if step < 0 then (if n + m > 122 then [chr (n + m - 26)] else [CHR ''z'', chr (n + m)])
                          else (if n + m > 122 then [CHR ''a'', chr (n + m - 26)] else [chr (n + m)])))"
      using assms(1) nd assms(2) True
      by (simp add: nextName_def Let_def ord_letters n_def m_def)
    show ?thesis unfolding eq using True b m
      by (simp add: letter_consts islower_chr_iff isalpha_chr_iff)
  next
    case False
    then have "isupper (last s)" using assms(2) by (simp add: isalpha_def)
    then have b: "65 \<le> n" "n \<le> 90" by (simp_all add: isupper_def n_def)
    have eq: "nextName s step offset =
        Inr (butlast s @ (if step < 0 then (if n + m > 90 then [chr (n + m - 26)] else [CHR ''Z'', chr (n + m)])
                          else (if n + m > 90 then [CHR ''A'', chr (n + m - 26)] else [chr (n + m)])))"
      using assms(1) nd assms(2) False
      by (simp add: nextName_def Let_def ord_letters n_def m_def)
    show ?thesis unfolding eq using False b m
      by (simp add: letter_consts islower_chr_iff isalpha_chr_iff)
  qed
qed

text \<open>
  C2. The examples of the increment primitive: Y+1 = Z, Z+1 = AA, z+1 = aa, A-1 = ZZ,
  a-1 = zz, 007+1 = 008, 099+1 = 100. For every string that ends in a letter, whatever
  the step and the offset, the result is the string without its last character followed
  by one or two letters of the same case: a carry or borrow appends a letter and leaves
  every character to the left of the last one as it was.
\<close>

theorem nextName_examples_and_carry:
  "nextName ''Y'' 1 0 = Inr ''Z'' \<and>
   nextName ''Z'' 1 0 = Inr ''AA'' \<and>
   nextName ''z'' 1 0 = Inr ''aa'' \<and>
   nextName ''A'' (- 1) 0 = Inr ''ZZ'' \<and>
   nextName ''a'' (- 1) 0 = Inr ''zz'' \<and>
   nextName ''007'' 1 0 = Inr ''008'' \<and>
   nextName ''099'' 1 0 = Inr ''100'' \<and>
   (\<forall>s step offset. s \<noteq> [] \<and> isalpha (last s) \<longrightarrow>
      (\<exists>tl. nextName s step offset = Inr (butlast s @ tl) \<and> (length tl = 1 \<or> length tl = 2)
            \<and> (\<forall>c\<in>set tl. isalpha c \<and> islower c = islower (last s))))"
proof -
  have e1: "nextName ''Y'' 1 0 = Inr ''Z''" by code_simp
  have e2: "nextName ''Z'' 1 0 = Inr ''AA''" by code_simp
  have e3: "nextName ''z'' 1 0 = Inr ''aa''" by code_simp
  have e4: "nextName ''A'' (- 1) 0 = Inr ''ZZ''" by code_simp
  have e5: "nextName ''a'' (- 1) 0 = Inr ''zz''" by code_simp
  have e6: "nextName ''007'' 1 0 = Inr ''008''" by code_simp
  have e7: "nextName ''099'' 1 0 = Inr ''100''" by code_simp
  have g: "\<forall>s step offset. s \<noteq> [] \<and> isalpha (last s) \<longrightarrow>
      (\<exists>tl. nextName s step offset = Inr (butlast s @ tl) \<and> (length tl = 1 \<or> length tl = 2)
            \<and> (\<forall>c\<in>set tl. isalpha c \<and> islower c = islower (last s)))"
    using nextName_alpha by blast
  from e1 e2 e3 e4 e5 e6 e7 g show ?thesis by blast
qed

theorem nextName_examples_and_carry_witness:
  "''abZ'' \<noteq> [] \<and> isalpha (last ''abZ'') \<and>
   (\<exists>tl. nextName ''abZ'' 1 0 = Inr (butlast ''abZ'' @ tl) \<and> (length tl = 1 \<or> length tl = 2)
         \<and> (\<forall>c\<in>set tl. isalpha c \<and> islower c = islower (last ''abZ'')))"
proof -
  have h: "''abZ'' \<noteq> [] \<and> isalpha (last ''abZ'')"
    by (simp add: isalpha_def isupper_def islower_def ord_def)
  from nextName_examples_and_carry h show ?thesis by blast
qed

text \<open>
  C8, as stated, fails on the empty string: nextName reads the last character first, so
  the empty string raises IndexError instead of giving the step as a new name.
\<close>

theorem nextName_empty_counterexample:
  "nextName '''' 1 0 = Inl IndexError \<and> nextName '''' 1 0 \<noteq> Inr ('''' @ fmt_d 1)"
  by (simp add: nextName_def)

text \<open>
  C8, amended. For every non-empty string whose last character is neither a digit nor a
  letter, nextName returns the string with the decimal rendering of the step appended.
\<close>

theorem nextName_punctuation:
  "s \<noteq> [] \<Longrightarrow> \<not> isdigit (last s) \<Longrightarrow> \<not> isalpha (last s) \<Longrightarrow>
   nextName s step offset = Inr (s @ fmt_d step)"
  by (simp add: nextName_def)

theorem nextName_punctuation_witness:
  "''ab-'' \<noteq> [] \<and> \<not> isdigit (last ''ab-'') \<and> \<not> isalpha (last ''ab-'') \<and>
   nextName ''ab-'' (- 7) 0 = Inr ''ab--7''"
proof -
  have h1: "''ab-'' \<noteq> []" by simp
  have h2: "\<not> isdigit (last ''ab-'')" by (simp add: isdigit_def ord_def)
  have h3: "\<not> isalpha (last ''ab-'')" by (simp add: isalpha_def islower_def isupper_def ord_def)
  have f: "fmt_d (- 7) = ''-7''" by code_simp
  from nextName_punctuation [OF h1 h2 h3, of "- 7" 0] h1 h2 h3 f show ?thesis by simp
qed

subsection \<open>Numeric parameters\<close>

lemma mem_dropWhile: "x \<in> set xs \<Longrightarrow> \<not> P x \<Longrightarrow> x \<in> set (dropWhile P xs)"
  by (induction xs) auto

lemma sum_case_sign:
  "b \<Longrightarrow> (case x of Inl e \<Rightarrow> Inl e | Inr n \<Rightarrow> Inr (if b then n else - n)) = x"
  by (cases x) simp_all

lemma scanint_leading_zero:
  assumes "length v > 1" "hd v = CHR ''0''"
  shows "scanint v = (if v ! 1 = CHR ''x'' \<or> v ! 1 = CHR ''X'' then py_int 16 v else py_int 2 v)"
proof -
  from assms have ne: "v \<noteq> []" by auto
  from assms(2) have nm: "hd v \<noteq> CHR ''-''" by simp
  show ?thesis using ne nm assms
    by (simp add: scanint_def Let_def sum_case_sign)
qed

lemma mem_strip_base_prefix:
  assumes "d \<in> set s" "d \<noteq> CHR ''0''" "d \<noteq> CHR ''b''" "d \<noteq> CHR ''B''" "d \<noteq> underscore"
  shows "d \<in> set (strip_base_prefix 2 s)"
  using assms by (auto simp: strip_base_prefix_def split: list.splits)

lemma py_int_2_big_digit:
  assumes "v \<noteq> []" "hd v = CHR ''0''" "d \<in> set v" "isdigit d" "ord d > 49"
  shows "py_int 2 v = Inl ValueError"
proof -
  have nsp: "\<not> isspace (hd v)" using assms(2) by (simp add: isspace_def ord_def)
  then have s1: "dropWhile isspace v = v" using assms(1) by (cases v) simp_all
  have dne: "d \<noteq> CHR ''0''" "d \<noteq> CHR ''b''" "d \<noteq> CHR ''B''" "d \<noteq> underscore"
    using assms(4,5) by (auto simp: isdigit_def ord_def underscore_def)
  have d3: "d \<in> set (strip_base_prefix 2 v)"
    using assms(3) dne by (rule mem_strip_base_prefix)
  have nd: "\<not> (digit_value d < 2 \<or> d = underscore)"
    using assms(4,5) dne by (simp add: digit_value_def)
  have nsd: "\<not> isspace d" using assms(4) by (auto simp: isspace_def isdigit_def)
  have "d \<in> set (dropWhile (\<lambda>c. digit_value c < 2 \<or> c = underscore) (strip_base_prefix 2 v))"
    using d3 nd by (rule mem_dropWhile)
  then have "d \<in> set (dropWhile isspace
      (dropWhile (\<lambda>c. digit_value c < 2 \<or> c = underscore) (strip_base_prefix 2 v)))"
    using nsd by (rule mem_dropWhile)
  then have ne: "dropWhile isspace
      (dropWhile (\<lambda>c. digit_value c < 2 \<or> c = underscore) (strip_base_prefix 2 v)) \<noteq> []"
    by (metis empty_iff list.set(1))
  show ?thesis using assms(1,2) ne
    by (simp add: py_int_def Let_def s1)
qed

lemma scanint_big_digit:
  assumes "v \<noteq> []" "hd v = CHR ''0''"
    "\<not> (length v > 1 \<and> (v ! 1 = CHR ''x'' \<or> v ! 1 = CHR ''X''))"
    "d \<in> set v" "isdigit d" "ord d > 49"
  shows "scanint v = Inl ValueError"
proof -
  have nm: "hd v \<noteq> CHR ''-''" using assms(2) by simp
  have p: "py_int 2 v = Inl ValueError" using assms(1,2,4,5,6) by (rule py_int_2_big_digit)
  have "scanint v = py_int 2 v"
    using assms(1,2,3) nm by (auto simp: scanint_def Let_def sum_case_sign)
  with p show ?thesis by simp
qed

text \<open>
  C10. A numeric parameter that begins with 0 and is longer than one character is read in
  base 16 when its second character is x or X and in base 2 otherwise. So 010 is 2, 0 is
  0, and 08 raises ValueError, as does every parameter with a leading 0, no x in second
  place and a digit above 1. prepRule passes a rule parameter that starts with a digit
  through scanint: the bump rule B/010 gets the step 2 and B/08 raises ValueError while
  the command is parsed.
\<close>

theorem scanint_radix_sensitive:
  "(\<forall>v. 1 < length v \<and> hd v = CHR ''0'' \<longrightarrow>
      scanint v = (if v ! 1 = CHR ''x'' \<or> v ! 1 = CHR ''X'' then py_int 16 v else py_int 2 v)) \<and>
   scanint ''010'' = Inr 2 \<and>
   scanint ''0'' = Inr 0 \<and>
   scanint ''08'' = Inl ValueError \<and>
   (\<forall>v d. v \<noteq> [] \<and> hd v = CHR ''0'' \<and> \<not> (1 < length v \<and> (v ! 1 = CHR ''x'' \<or> v ! 1 = CHR ''X''))
        \<and> d \<in> set v \<and> isdigit d \<and> 49 < ord d \<longrightarrow> scanint v = Inl ValueError) \<and>
   prepRule ''B/010'' [PStr rvRule, PInt 1, PInt 0] rvRule = Inr [PStr ''B'', PInt 2, PInt 0] \<and>
   prepRule ''B/0'' [PStr rvRule, PInt 1, PInt 0] rvRule = Inr [PStr ''B'', PInt 0, PInt 0] \<and>
   prepRule ''B/08'' [PStr rvRule, PInt 1, PInt 0] rvRule = Inl ValueError"
proof -
  have a: "\<forall>v. 1 < length v \<and> hd v = CHR ''0'' \<longrightarrow>
      scanint v = (if v ! 1 = CHR ''x'' \<or> v ! 1 = CHR ''X'' then py_int 16 v else py_int 2 v)"
    using scanint_leading_zero by blast
  have b: "scanint ''010'' = Inr 2" by code_simp
  have c: "scanint ''0'' = Inr 0" by code_simp
  have d: "scanint ''08'' = Inl ValueError" by code_simp
  have e: "\<forall>v d. v \<noteq> [] \<and> hd v = CHR ''0'' \<and> \<not> (1 < length v \<and> (v ! 1 = CHR ''x'' \<or> v ! 1 = CHR ''X''))
        \<and> d \<in> set v \<and> isdigit d \<and> 49 < ord d \<longrightarrow> scanint v = Inl ValueError"
    using scanint_big_digit by blast
  have f: "prepRule ''B/010'' [PStr rvRule, PInt 1, PInt 0] rvRule = Inr [PStr ''B'', PInt 2, PInt 0]"
    by code_simp
  have g: "prepRule ''B/0'' [PStr rvRule, PInt 1, PInt 0] rvRule = Inr [PStr ''B'', PInt 0, PInt 0]"
    by code_simp
  have h: "prepRule ''B/08'' [PStr rvRule, PInt 1, PInt 0] rvRule = Inl ValueError"
    by code_simp
  from a b c d e f g h show ?thesis by blast
qed

theorem scanint_radix_sensitive_witness:
  "1 < length ''0x1F'' \<and> hd ''0x1F'' = CHR ''0'' \<and> scanint ''0x1F'' = py_int 16 ''0x1F'' \<and>
   py_int 16 ''0x1F'' = Inr 31 \<and>
   1 < length ''0101'' \<and> hd ''0101'' = CHR ''0'' \<and> scanint ''0101'' = py_int 2 ''0101'' \<and>
   py_int 2 ''0101'' = Inr 5 \<and>
   ''0129'' \<noteq> [] \<and> hd ''0129'' = CHR ''0'' \<and> CHR ''9'' \<in> set ''0129'' \<and> isdigit CHR ''9'' \<and>
   49 < ord CHR ''9'' \<and> scanint ''0129'' = Inl ValueError"
proof -
  have h1: "1 < length ''0x1F'' \<and> hd ''0x1F'' = CHR ''0''" by simp
  have h2: "1 < length ''0101'' \<and> hd ''0101'' = CHR ''0''" by simp
  have h3: "''0129'' \<noteq> [] \<and> hd ''0129'' = CHR ''0''
       \<and> \<not> (1 < length ''0129'' \<and> (''0129'' ! 1 = CHR ''x'' \<or> ''0129'' ! 1 = CHR ''X''))
       \<and> CHR ''9'' \<in> set ''0129'' \<and> isdigit CHR ''9'' \<and> 49 < ord CHR ''9''"
    by (simp add: isdigit_def ord_def)
  have v1: "py_int 16 ''0x1F'' = Inr 31" by code_simp
  have v2: "py_int 2 ''0101'' = Inr 5" by code_simp
  have t1: "scanint ''0x1F'' = py_int 16 ''0x1F''"
    using scanint_radix_sensitive h1 by force
  have t2: "scanint ''0101'' = py_int 2 ''0101''"
    using scanint_radix_sensitive h2 by force
  have t3: "scanint ''0129'' = Inl ValueError"
    using scanint_radix_sensitive h3 by blast
  from h1 h2 h3 v1 v2 t1 t2 t3 show ?thesis by blast
qed

subsection \<open>Collision avoidance\<close>

lemma avoid_loop_first_free:
  assumes "i \<le> 10" "ca_root opts name i = Inr (root, rl)"
  shows "avoid_loop opts ex nl (length (suffix_pun opts)) (snd (greedyext name)) root rl i
         = first_free (\<lambda>t. t \<in> set nl \<or> ex t) (map (ca_candidate opts name) [i ..< 11])"
  using assms
proof (induction "10 - i" arbitrary: i root rl)
  case 0
  then have i: "i = 10" by simp
  have c: "ca_candidate opts name 10 = Inr (root @ suffix_pun opts @ snd (greedyext name))"
    using 0(3) i by (simp add: ca_candidate_def)
  have u: "[10 ..< 11] = [10::nat]" by (simp add: upt_conv_Cons)
  show ?case unfolding i u
    by (subst avoid_loop.simps) (auto simp: c suffix_pun_def Let_def)
next
  case (Suc n)
  then have i: "i < 10" by simp
  have c: "ca_candidate opts name i = Inr (root @ suffix_pun opts @ snd (greedyext name))"
    using Suc(4) by (simp add: ca_candidate_def)
  have u: "[i ..< 11] = i # [Suc i ..< 11]" using i by (simp add: upt_conv_Cons)
  have n: "n = 10 - Suc i" using Suc(2) by simp
  have le: "Suc i \<le> 10" using i by simp
  show ?case
  proof (cases "ca_root opts name (Suc i)")
    case (Inl e)
    have c': "ca_candidate opts name (Suc i) = Inl e" using Inl by (simp add: ca_candidate_def)
    have u': "[Suc i ..< 11] = Suc i # [Suc (Suc i) ..< 11]" using i by (simp add: upt_conv_Cons)
    show ?thesis unfolding u u'
      apply (subst avoid_loop.simps)
      using Inl Suc(4) i c c'
      apply (auto simp: Let_def suffix_pun_def split: sum.splits if_splits)
      done
  next
    case (Inr st)
    obtain r' rl' where st: "st = (r', rl')" by (cases st)
    have IH: "avoid_loop opts ex nl (length (suffix_pun opts)) (snd (greedyext name)) r' rl' (Suc i)
         = first_free (\<lambda>t. t \<in> set nl \<or> ex t) (map (ca_candidate opts name) [Suc i ..< 11])"
      using Suc(1)[OF n le] Inr st by simp
    show ?thesis unfolding u
      apply (subst avoid_loop.simps)
      using Inr st Suc(4) i c IH
      apply (auto simp: Let_def suffix_pun_def split: sum.splits if_splits)
      done
  qed
qed


lemma str_of_nat_nonempty: "str_of_nat n \<noteq> []"
  by (subst str_of_nat.simps) simp

lemma fmt_0d_nonempty: "fmt_0d w v \<noteq> []"
  by (simp add: fmt_0d_def fmt_d_def str_of_nat_nonempty)

lemma nextName_offset:
  assumes "offset < length s"
  shows "\<exists>r. nextName s step offset = Inr r \<and> offset < length r \<and> take offset r = take offset s"
proof -
  from assms have ne: "s \<noteq> []" by auto
  show ?thesis
  proof (cases "isdigit (last s)")
    case True
    have d: "drop offset s \<noteq> []" using assms by simp
    show ?thesis using ne True d assms
      by (simp add: nextName_def Let_def fmt_0d_nonempty min_def)
  next
    case False
    show ?thesis
    proof (cases "isalpha (last s)")
      case True
      from nextName_alpha[OF ne True, of step offset]
      obtain tl where tl: "nextName s step offset = Inr (butlast s @ tl)" "length tl = 1 \<or> length tl = 2"
        by blast
      have "take offset (butlast s @ tl) = take offset s"
        using assms by (simp add: take_butlast)
      then show ?thesis using tl assms by auto
    next
      case nal: False
      show ?thesis using ne False nal assms by (simp add: nextName_def)
    qed
  qed
qed

lemma ca_root_append:
  assumes "\<not> caMerge opts" "caStart opts \<noteq> []"
  shows "\<exists>root. ca_root opts name (Suc k) = Inr (root, length (decorated_root opts name))
            \<and> length (decorated_root opts name) < length root
            \<and> take (length (decorated_root opts name)) root = decorated_root opts name"
proof (induction k)
  case 0
  show ?case using assms by simp
next
  case (Suc k)
  then obtain root where r: "ca_root opts name (Suc k) = Inr (root, length (decorated_root opts name))"
      "length (decorated_root opts name) < length root"
      "take (length (decorated_root opts name)) root = decorated_root opts name"
    by blast
  from nextName_offset[OF r(2), of 1]
  obtain r' where r': "nextName root 1 (length (decorated_root opts name)) = Inr r'"
     "length (decorated_root opts name) < length r'"
     "take (length (decorated_root opts name)) r' = take (length (decorated_root opts name)) root"
    by blast
  have "ca_root opts name (Suc (Suc k)) = Inr (r', length (decorated_root opts name))"
    using assms(1) r(1) r'(1) by (simp del: ca_root.simps add: ca_root.simps(2)[of opts name "Suc k"])
  then show ?case using r' r(3) by simp
qed





lemma avoid_first_free:
  "avoid opts ex nl name
     = first_free (\<lambda>t. t \<in> set nl \<or> ex t) (map (ca_candidate opts name) [0 ..< 11])"
proof -
  have r0: "ca_root opts name 0 = Inr (decorated_root opts name, 0)" by simp
  have "avoid opts ex nl name =
      avoid_loop opts ex nl (length (suffix_pun opts)) (snd (greedyext name)) (decorated_root opts name) 0 0"
    by (cases "greedyext name") (simp add: avoid_def decorated_root_def suffix_pun_def Let_def)
  also have "\<dots> = first_free (\<lambda>t. t \<in> set nl \<or> ex t) (map (ca_candidate opts name) [0 ..< 11])"
    using r0 by (intro avoid_loop_first_free) simp_all
  finally show ?thesis .
qed

lemma his_candidates:
  "map (ca_candidate default_options ''his-01.png'') [0 ..< 11] =
     map Inr [''his-01.png'', ''his-010.png'', ''his-011.png'', ''his-012.png'', ''his-013.png'',
              ''his-014.png'', ''his-015.png'', ''his-016.png'', ''his-017.png'', ''his-018.png'',
              ''his-019.png'']"
  by code_simp

lemma his_root: "decorated_root default_options ''his-01.png'' = ''his-01''"
  by code_simp

lemma his_ext: "snd (greedyext ''his-01.png'') = ''.png''"
  by code_simp

lemma his_later:
  "\<exists>t. ca_candidate default_options ''his-01.png'' (Suc k) = Inr (''his-01'' @ t @ ''.png'') \<and> t \<noteq> []"
proof -
  have a: "\<not> caMerge default_options" "caStart default_options \<noteq> []"
    by (simp_all add: default_options_def)
  from ca_root_append[OF a, of "''his-01.png''" k]
  obtain root where r: "ca_root default_options ''his-01.png'' (Suc k) = Inr (root, length ''his-01'')"
     "length ''his-01'' < length root" "take (length ''his-01'') root = ''his-01''"
    unfolding his_root by blast
  have root: "root = ''his-01'' @ drop (length ''his-01'') root"
    using r(3) by (metis append_take_drop_id)
  have ne: "drop (length ''his-01'') root \<noteq> []" using r(2) by simp
  have sp: "suffix_pun default_options = []" by (simp add: suffix_pun_def default_options_def)
  have "ca_candidate default_options ''his-01.png'' (Suc k) = Inr (root @ ''.png'')"
    using r(1) by (simp add: ca_candidate_def sp his_ext del: ca_root.simps)
  then have "ca_candidate default_options ''his-01.png'' (Suc k)
      = Inr (''his-01'' @ drop (length ''his-01'') root @ ''.png'')"
    using root by (metis append_assoc)
  with ne show ?thesis by blast
qed

text \<open>
  C6. With the default scheme (no merge, start token 0, no decoration) the names tested
  for his-01.png are his-01.png, his-010.png, his-011.png and so on to his-019.png, in
  this order: when his-01.png is taken the first alternative is his-010.png, and when
  that is taken too the next is his-011.png. Every later candidate is his-01, a
  non-empty appended part and .png: the original root is never altered.
\<close>

theorem avoid_default_numeric:
  "avoid default_options ex nl ''his-01.png'' =
     first_free (\<lambda>t. t \<in> set nl \<or> ex t)
       (map Inr [''his-01.png'', ''his-010.png'', ''his-011.png'', ''his-012.png'', ''his-013.png'',
                 ''his-014.png'', ''his-015.png'', ''his-016.png'', ''his-017.png'', ''his-018.png'',
                 ''his-019.png'']) \<and>
   ((''his-01.png'' \<in> set nl \<or> ex ''his-01.png'') \<and> \<not> (''his-010.png'' \<in> set nl \<or> ex ''his-010.png'')
      \<longrightarrow> avoid default_options ex nl ''his-01.png'' = Inr ''his-010.png'') \<and>
   ((''his-01.png'' \<in> set nl \<or> ex ''his-01.png'') \<and> (''his-010.png'' \<in> set nl \<or> ex ''his-010.png'')
      \<and> \<not> (''his-011.png'' \<in> set nl \<or> ex ''his-011.png'')
      \<longrightarrow> avoid default_options ex nl ''his-01.png'' = Inr ''his-011.png'') \<and>
   (\<forall>k. \<exists>t. ca_candidate default_options ''his-01.png'' (Suc k) = Inr (''his-01'' @ t @ ''.png'') \<and> t \<noteq> [])"
proof -
  have a: "avoid default_options ex nl ''his-01.png'' =
     first_free (\<lambda>t. t \<in> set nl \<or> ex t)
       (map Inr [''his-01.png'', ''his-010.png'', ''his-011.png'', ''his-012.png'', ''his-013.png'',
                 ''his-014.png'', ''his-015.png'', ''his-016.png'', ''his-017.png'', ''his-018.png'',
                 ''his-019.png''])"
    unfolding avoid_first_free his_candidates ..
  have b: "(''his-01.png'' \<in> set nl \<or> ex ''his-01.png'') \<and> \<not> (''his-010.png'' \<in> set nl \<or> ex ''his-010.png'')
      \<longrightarrow> avoid default_options ex nl ''his-01.png'' = Inr ''his-010.png''"
    unfolding a by simp
  have c: "(''his-01.png'' \<in> set nl \<or> ex ''his-01.png'') \<and> (''his-010.png'' \<in> set nl \<or> ex ''his-010.png'')
      \<and> \<not> (''his-011.png'' \<in> set nl \<or> ex ''his-011.png'')
      \<longrightarrow> avoid default_options ex nl ''his-01.png'' = Inr ''his-011.png''"
    unfolding a by simp
  from a b c his_later show ?thesis by blast
qed

theorem avoid_default_numeric_witness:
  "avoid default_options (\<lambda>t. t = ''his-01.png'') [] ''his-01.png'' = Inr ''his-010.png'' \<and>
   avoid default_options (\<lambda>t. t = ''his-01.png'') [''his-010.png''] ''his-01.png'' = Inr ''his-011.png''"
proof -
  have h1: "(''his-01.png'' \<in> set [] \<or> (\<lambda>t. t = ''his-01.png'') ''his-01.png'')
      \<and> \<not> (''his-010.png'' \<in> set [] \<or> (\<lambda>t. t = ''his-01.png'') ''his-010.png'')" by simp
  have h2: "(''his-01.png'' \<in> set [''his-010.png''] \<or> (\<lambda>t. t = ''his-01.png'') ''his-01.png'')
      \<and> (''his-010.png'' \<in> set [''his-010.png''] \<or> (\<lambda>t. t = ''his-01.png'') ''his-010.png'')
      \<and> \<not> (''his-011.png'' \<in> set [''his-010.png''] \<or> (\<lambda>t. t = ''his-01.png'') ''his-011.png'')" by simp
  from avoid_default_numeric[of "\<lambda>t. t = ''his-01.png''" "[]"] h1
  have a: "avoid default_options (\<lambda>t. t = ''his-01.png'') [] ''his-01.png'' = Inr ''his-010.png''"
    by blast
  from avoid_default_numeric[of "\<lambda>t. t = ''his-01.png''" "[''his-010.png'']"] h2
  have b: "avoid default_options (\<lambda>t. t = ''his-01.png'') [''his-010.png''] ''his-01.png'' = Inr ''his-011.png''"
    by blast
  from a b show ?thesis by blast
qed

subsection \<open>The replacement synthesizer\<close>

lemma bnd_InrE:
  assumes "bnd m f = Inr y"
  obtains v where "m = Inr v" "f v = Inr y"
  using assms by (cases m) (simp_all add: bnd_def)

text \<open>
  C1. The filter \<open>08*-0*\<close> with the replacement \<open>/hap*\<close> and no rules, whether the
  filter ignores case or not: for each of 08493357-001.tif to 08493357-005.tif the
  floaters are 493357 and 0N.tif, and native returns hap0N.tif: the \<open>/\<close> discards the
  first floater, hap is a literal, and \<open>*\<close> copies the last floater.
\<close>

theorem native_patents_end_to_end:
  "(\<forall>fc. case native_setup fc ''08*-0*'' ''/hap*'' [] of
      Inl e \<Rightarrow> False
    | Inr (prog, rls, irules) \<Rightarrow>
        rls = [] \<and> lrep prog = [''/'', ''hap'', ''*''] \<and>
        map (native_filter prog)
          [''08493357-001.tif'', ''08493357-002.tif'', ''08493357-003.tif'',
           ''08493357-004.tif'', ''08493357-005.tif'']
        = [Inr (Some [''493357'', ''01.tif'']), Inr (Some [''493357'', ''02.tif'']),
           Inr (Some [''493357'', ''03.tif'']), Inr (Some [''493357'', ''04.tif'']),
           Inr (Some [''493357'', ''05.tif''])] \<and>
        map (native prog rls)
          [''08493357-001.tif'', ''08493357-002.tif'', ''08493357-003.tif'',
           ''08493357-004.tif'', ''08493357-005.tif'']
        = [Inr (''hap01.tif'', []), Inr (''hap02.tif'', []), Inr (''hap03.tif'', []),
           Inr (''hap04.tif'', []), Inr (''hap05.tif'', [])])"
proof
  fix fc
  have t: "case native_setup True ''08*-0*'' ''/hap*'' [] of
      Inl e \<Rightarrow> False
    | Inr (prog, rls, irules) \<Rightarrow>
        rls = [] \<and> lrep prog = [''/'', ''hap'', ''*''] \<and>
        map (native_filter prog)
          [''08493357-001.tif'', ''08493357-002.tif'', ''08493357-003.tif'',
           ''08493357-004.tif'', ''08493357-005.tif'']
        = [Inr (Some [''493357'', ''01.tif'']), Inr (Some [''493357'', ''02.tif'']),
           Inr (Some [''493357'', ''03.tif'']), Inr (Some [''493357'', ''04.tif'']),
           Inr (Some [''493357'', ''05.tif''])] \<and>
        map (native prog rls)
          [''08493357-001.tif'', ''08493357-002.tif'', ''08493357-003.tif'',
           ''08493357-004.tif'', ''08493357-005.tif'']
        = [Inr (''hap01.tif'', []), Inr (''hap02.tif'', []), Inr (''hap03.tif'', []),
           Inr (''hap04.tif'', []), Inr (''hap05.tif'', [])]"
    by code_simp
  have f: "case native_setup False ''08*-0*'' ''/hap*'' [] of
      Inl e \<Rightarrow> False
    | Inr (prog, rls, irules) \<Rightarrow>
        rls = [] \<and> lrep prog = [''/'', ''hap'', ''*''] \<and>
        map (native_filter prog)
          [''08493357-001.tif'', ''08493357-002.tif'', ''08493357-003.tif'',
           ''08493357-004.tif'', ''08493357-005.tif'']
        = [Inr (Some [''493357'', ''01.tif'']), Inr (Some [''493357'', ''02.tif'']),
           Inr (Some [''493357'', ''03.tif'']), Inr (Some [''493357'', ''04.tif'']),
           Inr (Some [''493357'', ''05.tif''])] \<and>
        map (native prog rls)
          [''08493357-001.tif'', ''08493357-002.tif'', ''08493357-003.tif'',
           ''08493357-004.tif'', ''08493357-005.tif'']
        = [Inr (''hap01.tif'', []), Inr (''hap02.tif'', []), Inr (''hap03.tif'', []),
           Inr (''hap04.tif'', []), Inr (''hap05.tif'', [])]"
    by code_simp
  show "case native_setup fc ''08*-0*'' ''/hap*'' [] of
      Inl e \<Rightarrow> False
    | Inr (prog, rls, irules) \<Rightarrow>
        rls = [] \<and> lrep prog = [''/'', ''hap'', ''*''] \<and>
        map (native_filter prog)
          [''08493357-001.tif'', ''08493357-002.tif'', ''08493357-003.tif'',
           ''08493357-004.tif'', ''08493357-005.tif'']
        = [Inr (Some [''493357'', ''01.tif'']), Inr (Some [''493357'', ''02.tif'']),
           Inr (Some [''493357'', ''03.tif'']), Inr (Some [''493357'', ''04.tif'']),
           Inr (Some [''493357'', ''05.tif''])] \<and>
        map (native prog rls)
          [''08493357-001.tif'', ''08493357-002.tif'', ''08493357-003.tif'',
           ''08493357-004.tif'', ''08493357-005.tif'']
        = [Inr (''hap01.tif'', []), Inr (''hap02.tif'', []), Inr (''hap03.tif'', []),
           Inr (''hap04.tif'', []), Inr (''hap05.tif'', [])]"
    by (induct fc) (rule t, rule f)
qed




text \<open>
  C4 fails on the code. The command has the filter \<open>*-*\<close>, the replacement \<open>?-?\<close> and
  the rules S/1/1 and B: two rule variables and two rules, the first \<open>?\<close> for S and
  the second for B, as prepRule checks them. For the name \<open>-ab9\<close> the first floater is
  empty: the loop passes over the first \<open>?\<close> without advancing the rule cursor, which is
  still 0 when the second \<open>?\<close> is reached, and the second \<open>?\<close> is given the rule S:
  the result is \<open>-a9\<close>, where the rule B gives \<open>-ab10\<close>. For \<open>xy-ab9\<close> the same
  command pairs the second \<open>?\<close> with B. In the same way, with the replacement \<open>?/:\<close>
  and the rules B and I, the variable \<open>:\<close> is given the bump rule B for the name
  \<open>-ab\<close> and bumps the floater that \<open>/\<close> discarded.
\<close>

theorem native_rule_mispairing:
  "(case native_setup True ''*-*'' ''?-?'' [''S/1/1'', ''B''] of
      Inl e \<Rightarrow> False
    | Inr (prog, rls, irules) \<Rightarrow>
        lrep prog = [''?'', ''-'', ''?''] \<and> rule_positions (lrep prog) = [0, 2] \<and>
        rls = [[PStr ''S'', PInt 1, PInt 1, PInt 0], [PStr ''B'', PInt 1, PInt 0]] \<and>
        length (rule_positions (lrep prog)) = length rls \<and>
        native_filter prog ''-ab9'' = Inr (Some [[], ''ab9'']) \<and>
        native_loop prog [[], ''ab9''] (take 2 (enumerate 0 (lrep prog)))
            \<lparr>newName = [], floatIdx = 0, ridx = 0, src = None, rules = rls\<rparr>
          = Inr \<lparr>newName = ''-'', floatIdx = 1, ridx = 0, src = Some [], rules = rls\<rparr> \<and>
        native prog rls ''-ab9'' = Inr (''-a9'', rls) \<and>
        apply_rule \<lparr>newName = ''-'', floatIdx = 2, ridx = 0, src = Some ''ab9'', rules = rls\<rparr>
          = Inr \<lparr>newName = ''-a9'', floatIdx = 2, ridx = 1, src = Some ''ab9'', rules = rls\<rparr> \<and>
        apply_rule \<lparr>newName = ''-'', floatIdx = 2, ridx = 1, src = Some ''ab9'', rules = rls\<rparr>
          = Inr \<lparr>newName = ''-ab10'', floatIdx = 2, ridx = 2, src = Some ''ab9'', rules = rls\<rparr> \<and>
        native prog rls ''xy-ab9'' = Inr (''xy-ab10'', rls))
   \<and> (case native_setup True ''*-*'' ''?/:'' [''B'', ''I''] of
      Inl e \<Rightarrow> False
    | Inr (prog, rls, irules) \<Rightarrow>
        lrep prog = [''?'', ''/'', '':''] \<and> rule_positions (lrep prog) = [0, 2] \<and>
        rls = [[PStr ''B'', PInt 1, PInt 0], [PStr ''I'', PInt 0, PInt 1, PInt 1, PInt 0, PInt 0]] \<and>
        native prog rls ''-ab'' = Inr (''ac'', rls) \<and>
        native prog rls ''x-ab'' =
          Inr (''y0'', [[PStr ''B'', PInt 1, PInt 0], [PStr ''I'', PInt 1, PInt 1, PInt 1, PInt 0, PInt 0]]))"
  by code_simp

subsection \<open>Collision policies in procDir\<close>







subsection \<open>Insert-Increment rules and the reload at a directory\<close>

lemma prepRule_params_shape:
  "prepRule_params defRule [a ..< b] wl = Inr wl' \<Longrightarrow> 1 \<le> a \<Longrightarrow> a \<le> length wl \<Longrightarrow>
   b \<le> length wl' \<and> length wl \<le> length wl' \<and> wl' ! 0 = wl ! 0"
proof (induction "b - a" arbitrary: a wl)
  case 0
  then show ?case by simp
next
  case (Suc n)
  then have ab: "a < b" by simp
  then have u: "[a ..< b] = a # [Suc a ..< b]" by (simp add: upt_conv_Cons)
  have n: "n = b - Suc a" using Suc(2) by simp
  show ?case
  proof (cases "int a > int (length wl) - 1")
    case True
    then have al: "a = length wl" using Suc.prems(3) by simp
    from Suc.prems(1) True have r: "prepRule_params defRule [Suc a ..< b] (wl @ [defRule ! a]) = Inr wl'"
      unfolding u by simp
    from Suc(1)[OF n r] al Suc.prems(2)
    have "b \<le> length wl' \<and> length (wl @ [defRule ! a]) \<le> length wl' \<and> wl' ! 0 = (wl @ [defRule ! a]) ! 0"
      by simp
    then show ?thesis using ab al Suc.prems(2) by (auto simp: nth_append)
  next
    case False
    then have al: "a < length wl" by simp
    from Suc.prems(1) False obtain wl1 where
      wl1: "prepRule_params defRule [Suc a ..< b] wl1 = Inr wl'"
        "length wl1 = length wl" "wl1 ! 0 = wl ! 0"
      unfolding u using Suc.prems(2)
      by (auto split: pval.splits if_splits sum.splits)
    from Suc(1)[OF n wl1(1)] al wl1(2)
    have "b \<le> length wl' \<and> length wl1 \<le> length wl' \<and> wl' ! 0 = wl1 ! 0" by simp
    then show ?thesis using wl1 by simp
  qed
qed

lemma split_chr_nonempty: "split_chr sep s \<noteq> []"
  by (induction s) (auto split: list.splits)

lemma split_chr_hd:
  "s \<noteq> [] \<Longrightarrow> hd s \<noteq> sep \<Longrightarrow> length (hd (split_chr sep s)) \<le> 1 \<Longrightarrow> hd (split_chr sep s) = [hd s]"
  by (cases s) (auto split: list.splits)

lemma prepRule_shape:
  assumes "prepRule arg defRule rvType = Inr wl" "hd arg \<noteq> CHR ''/''"
  shows "arg \<noteq> [] \<and> wl \<noteq> [] \<and> hd wl = PStr [hd arg] \<and> length defRule \<le> length wl"
proof -
  let ?wl0 = "map PStr (split_chr CHR ''/'' arg)"
  have ne0: "?wl0 \<noteq> []" using split_chr_nonempty by simp
  from assms(1) have len1: "length (hd (split_chr CHR ''/'' arg)) \<le> 1"
    using split_chr_nonempty[of "CHR ''/''" arg]
    by (auto simp: prepRule_def Let_def hd_map split: if_splits)
  from assms(1) have dne: "defRule \<noteq> []"
    by (auto simp: prepRule_def Let_def split: if_splits)
  from assms(1) obtain wl1 where
    p: "prepRule_params defRule [1 ..< length defRule] ?wl0 = Inr wl1"
    and ane: "arg \<noteq> []"
    by (auto simp: prepRule_def Let_def split: if_splits sum.splits)
  have l0: "1 \<le> length ?wl0" using ne0 by (cases ?wl0) simp_all
  from prepRule_params_shape[OF p _ l0]
  have s1: "length defRule \<le> length wl1" "length ?wl0 \<le> length wl1" "wl1 ! 0 = ?wl0 ! 0" by simp_all
  have h0: "?wl0 ! 0 = PStr [hd arg]"
    using split_chr_hd[OF ane assms(2) len1] split_chr_nonempty[of "CHR ''/''" arg]
    by (simp add: hd_conv_nth)
  have wl1ne: "wl1 \<noteq> []" using s1(2) l0 by auto
  from assms(1) p ane have
    "wl = wl1 \<or> (\<exists>m. wl = (wl1[I_MODE := PInt m])[I_RELOAD := wl1 ! I_START])"
    by (auto simp: prepRule_def Let_def split: if_splits pval.splits)
  then have "length wl = length wl1 \<and> wl ! 0 = wl1 ! 0"
    using wl1ne by (auto simp: I_MODE_def I_RELOAD_def)
  then show ?thesis using ane wl1ne s1 h0 by (cases wl) (auto simp: hd_conv_nth)
qed

lemma prepRule_inc:
  assumes "prepRule arg defRule rvType = Inr wl" "hd arg = CHR ''I''" "length defRule = 6"
  shows "length wl \<ge> 6 \<and> (\<exists>m. wl ! I_MODE = PInt m \<and> (m \<noteq> 0 \<longrightarrow> wl ! I_RELOAD = wl ! I_START))"
proof -
  have nsl: "hd arg \<noteq> CHR ''/''" using assms(2) by simp
  from prepRule_shape[OF assms(1) nsl] assms(3) have len: "6 \<le> length wl" by simp
  from assms(1) obtain wl1 where
    p: "prepRule_params defRule [1 ..< length defRule] (map PStr (split_chr CHR ''/'' arg)) = Inr wl1"
    by (auto simp: prepRule_def Let_def split: if_splits sum.splits)
  from assms(1,2) p have
    "(wl = wl1 \<and> wl1 ! I_MODE = PInt 0)
     \<or> (\<exists>m. wl = (wl1[I_MODE := PInt m])[I_RELOAD := wl1 ! I_START] \<and> I_RELOAD < length wl1)"
    by (auto simp: prepRule_def Let_def split: if_splits pval.splits)
  then show ?thesis
  proof
    assume "wl = wl1 \<and> wl1 ! I_MODE = PInt 0"
    then show ?thesis using len by simp
  next
    assume "\<exists>m. wl = (wl1[I_MODE := PInt m])[I_RELOAD := wl1 ! I_START] \<and> I_RELOAD < length wl1"
    then obtain m where m: "wl = (wl1[I_MODE := PInt m])[I_RELOAD := wl1 ! I_START]"
      "I_RELOAD < length wl1" by blast
    then have "wl ! I_MODE = PInt m" "wl ! I_RELOAD = wl ! I_START"
      by (simp_all add: I_MODE_def I_RELOAD_def I_START_def)
    then show ?thesis using len by simp
  qed
qed

lemma repRules_keys:
  assumes "repRules [c] = Some defRule"
  shows "c \<noteq> CHR ''/'' \<and> (c = CHR ''I'' \<longrightarrow> length defRule = 6)"
  using assms
  by (auto simp: repRules_def sliceRule_def bumpRule_def incRule_def split: if_splits)

lemma prep_rules_inv:
  assumes "prep_rules rulevars args (rs, irs) = Inr (rls0, ir0)"
    "irs = filter (\<lambda>i. is_inc (rs ! i)) [0 ..< length rs]"
    "\<forall>r\<in>set rs. is_inc r \<longrightarrow>
        length r \<ge> 6 \<and> (\<exists>m. r ! I_MODE = PInt m \<and> (m \<noteq> 0 \<longrightarrow> r ! I_RELOAD = r ! I_START))"
  shows "ir0 = filter (\<lambda>i. is_inc (rls0 ! i)) [0 ..< length rls0] \<and>
     (\<forall>r\<in>set rls0. is_inc r \<longrightarrow>
        length r \<ge> 6 \<and> (\<exists>m. r ! I_MODE = PInt m \<and> (m \<noteq> 0 \<longrightarrow> r ! I_RELOAD = r ! I_START)))"
  using assms
proof (induction args arbitrary: rs irs)
  case Nil
  then show ?case by auto
next
  case (Cons arg args)
  from Cons.prems(1) obtain defRule wlist where
    ane: "arg \<noteq> []" and rr: "repRules [hd arg] = Some defRule"
    and pr: "prepRule arg defRule (rulevars ! length rs) = Inr wlist"
    and rest: "prep_rules rulevars args
        (rs @ [wlist], if wlist \<noteq> [] \<and> hd wlist = PStr ''I'' then irs @ [length rs] else irs)
        = Inr (rls0, ir0)"
    by (auto simp: Let_def split: if_splits option.splits sum.splits)
  from repRules_keys[OF rr] have nsl: "hd arg \<noteq> CHR ''/''"
    and l6: "hd arg = CHR ''I'' \<Longrightarrow> length defRule = 6" by simp_all
  from prepRule_shape[OF pr nsl] have sh: "wlist \<noteq> []" "hd wlist = PStr [hd arg]" by simp_all
  have inc_iff: "is_inc wlist \<longleftrightarrow> hd arg = CHR ''I''"
    using sh by (auto simp: is_inc_def incRule_def)
  have cond: "(wlist \<noteq> [] \<and> hd wlist = PStr ''I'') \<longleftrightarrow> is_inc wlist"
    by (simp add: is_inc_def incRule_def)
  have wfw: "is_inc wlist \<longrightarrow>
        length wlist \<ge> 6 \<and> (\<exists>m. wlist ! I_MODE = PInt m \<and> (m \<noteq> 0 \<longrightarrow> wlist ! I_RELOAD = wlist ! I_START))"
  proof
    assume "is_inc wlist"
    then have i: "hd arg = CHR ''I''" using inc_iff by simp
    from prepRule_inc[OF pr i l6[OF i]] show
      "length wlist \<ge> 6 \<and> (\<exists>m. wlist ! I_MODE = PInt m \<and> (m \<noteq> 0 \<longrightarrow> wlist ! I_RELOAD = wlist ! I_START))" .
  qed
  have f: "filter (\<lambda>i. is_inc ((rs @ [wlist]) ! i)) [0 ..< length rs]
         = filter (\<lambda>i. is_inc (rs ! i)) [0 ..< length rs]"
    by (rule filter_cong) (auto simp: nth_append)
  have ir: "(if wlist \<noteq> [] \<and> hd wlist = PStr ''I'' then irs @ [length rs] else irs)
       = filter (\<lambda>i. is_inc ((rs @ [wlist]) ! i)) [0 ..< length (rs @ [wlist])]"
    unfolding cond using Cons.prems(2) f by simp
  have wf: "\<forall>r\<in>set (rs @ [wlist]). is_inc r \<longrightarrow>
        length r \<ge> 6 \<and> (\<exists>m. r ! I_MODE = PInt m \<and> (m \<noteq> 0 \<longrightarrow> r ! I_RELOAD = r ! I_START))"
    using Cons.prems(3) wfw by auto
  from Cons.IH[OF rest ir wf] show ?case .
qed

lemma start_only_refl: "start_only rls rls"
  by (simp add: start_only_def)

lemma start_only_trans: "start_only a b \<Longrightarrow> start_only b c \<Longrightarrow> start_only a c"
  by (auto simp: start_only_def)

lemma start_only_update:
  assumes "i < length rls"
  shows "start_only rls (rls[i := (rls ! i)[I_START := v]])"
  using assms by (auto simp: start_only_def nth_list_update)

lemma py_index_InrD:
  assumes "py_index xs (int i) = Inr x"
  shows "i < length xs \<and> x = xs ! i"
  using assms by (auto simp: py_index_def Let_def split: if_splits)

lemma py_index_nth:
  "i < length xs \<Longrightarrow> py_index xs (int i) = Inr (xs ! i)"
  by (simp add: py_index_def Let_def)

lemma has_R_update: "has_R (r[I_START := v]) = has_R r"
  by (simp add: has_R_def I_START_def I_MODE_def)

lemma reload_rules_spec:
  assumes "\<forall>i\<in>set idxs. i < length rls \<and> 6 \<le> length (rls ! i) \<and> (\<exists>m. rls ! i ! I_MODE = PInt m)"
  shows "\<exists>rls1. reload_rules idxs rls = Inr rls1 \<and> length rls1 = length rls \<and>
     (\<forall>i<length rls. rls1 ! i =
        (if i \<in> set idxs \<and> has_R (rls ! i) then (rls ! i)[I_START := rls ! i ! I_RELOAD] else rls ! i))"
  using assms
proof (induction idxs arbitrary: rls)
  case Nil
  then show ?case by simp
next
  case (Cons idx idxs)
  from Cons.prems obtain m where
    lt: "idx < length rls" and l6: "6 \<le> length (rls ! idx)" and md: "rls ! idx ! I_MODE = PInt m"
    by auto
  let ?rule = "rls ! idx"
  show ?case
  proof (cases "m AND I_R \<noteq> 0")
    case False
    then have nr: "\<not> has_R ?rule" using md by (simp add: has_R_def)
    have step: "reload_rules (idx # idxs) rls = reload_rules idxs rls"
      using lt l6 md False
      by (simp add: py_index_def Let_def bnd_def as_int_def I_MODE_def)
    from Cons.prems have "\<forall>i\<in>set idxs. i < length rls \<and> 6 \<le> length (rls ! i) \<and> (\<exists>m. rls ! i ! I_MODE = PInt m)"
      by simp
    from Cons.IH[OF this] obtain rls1 where
      r: "reload_rules idxs rls = Inr rls1" "length rls1 = length rls"
        "\<forall>i<length rls. rls1 ! i =
          (if i \<in> set idxs \<and> has_R (rls ! i) then (rls ! i)[I_START := rls ! i ! I_RELOAD] else rls ! i)"
      by blast
    show ?thesis unfolding step using r nr by auto
  next
    case True
    then have hr: "has_R ?rule" using md by (simp add: has_R_def)
    let ?rls' = "rls[idx := ?rule[I_START := ?rule ! I_RELOAD]]"
    have step: "reload_rules (idx # idxs) rls = reload_rules idxs ?rls'"
      using lt l6 md True
      by (simp add: py_index_def Let_def bnd_def as_int_def I_MODE_def I_RELOAD_def I_START_def)
    have pre: "\<forall>i\<in>set idxs. i < length ?rls' \<and> 6 \<le> length (?rls' ! i) \<and> (\<exists>m. ?rls' ! i ! I_MODE = PInt m)"
      using Cons.prems by (auto simp: nth_list_update I_MODE_def I_START_def)
    from Cons.IH[OF pre] obtain rls1 where
      r: "reload_rules idxs ?rls' = Inr rls1" "length rls1 = length ?rls'"
        "\<forall>i<length ?rls'. rls1 ! i =
          (if i \<in> set idxs \<and> has_R (?rls' ! i) then (?rls' ! i)[I_START := ?rls' ! i ! I_RELOAD] else ?rls' ! i)"
      by blast
    have "\<forall>i<length rls. rls1 ! i =
        (if i \<in> set (idx # idxs) \<and> has_R (rls ! i) then (rls ! i)[I_START := rls ! i ! I_RELOAD] else rls ! i)"
    proof (intro allI impI)
      fix i assume il: "i < length rls"
      with r(3) have e: "rls1 ! i =
          (if i \<in> set idxs \<and> has_R (?rls' ! i) then (?rls' ! i)[I_START := ?rls' ! i ! I_RELOAD] else ?rls' ! i)"
        by simp
      show "rls1 ! i =
        (if i \<in> set (idx # idxs) \<and> has_R (rls ! i) then (rls ! i)[I_START := rls ! i ! I_RELOAD] else rls ! i)"
      proof (cases "i = idx")
        case True
        have "?rls' ! i = ?rule[I_START := ?rule ! I_RELOAD]" using True lt by simp
        then show ?thesis using e True hr l6
          by (simp add: has_R_update) (simp add: I_START_def I_RELOAD_def)
      next
        case False
        then have "?rls' ! i = rls ! i" by simp
        then show ?thesis using e False by simp
      qed
    qed
    then show ?thesis unfolding step using r(1,2) by simp
  qed
qed

lemma slice_rule_rules: "slice_rule st rule = Inr st' \<Longrightarrow> rules st' = rules st \<and> ridx st' = ridx st"
  by (auto simp: slice_rule_def elim!: bnd_InrE split: if_splits pval.splits)

lemma bump_rule_rules: "bump_rule st rule = Inr st' \<Longrightarrow> rules st' = rules st \<and> ridx st' = ridx st"
  by (auto simp: bump_rule_def Let_def elim!: bnd_InrE split: if_splits prod.splits)

lemma inc_value_rule: "inc_value rule = Inr (n, rule') \<Longrightarrow> \<exists>v. rule' = rule[I_START := v]"
  by (auto simp: inc_value_def elim!: bnd_InrE split: pval.splits)

lemma inc_rule_rules:
  assumes "inc_rule st rule = Inr st'"
  shows "\<exists>v. rules st' = (rules st)[ridx st := rule[I_START := v]]"
proof -
  from assms obtain n rule' where iv: "inc_value rule = Inr (n, rule')"
    and r: "rules st' = (rules st)[ridx st := rule']"
    by (auto simp: inc_rule_def Let_def elim!: bnd_InrE split: if_splits prod.splits)
  from inc_value_rule[OF iv] r show ?thesis by auto
qed

lemma apply_rule_start_only:
  assumes "apply_rule st = Inr st'"
  shows "start_only (rules st) (rules st')"
proof -
  from assms obtain rule rid st1 where
    a: "py_index (rules st) (int (ridx st)) = Inr rule"
    and c: "(if rid = PStr sliceRule then slice_rule st rule
          else if rid = PStr bumpRule then bump_rule st rule
          else if rid = PStr incRule then inc_rule st rule
          else Inr st) = Inr st1"
    and d: "st' = st1\<lparr>ridx := ridx st1 + 1\<rparr>"
    by (auto simp: apply_rule_def elim!: bnd_InrE)
  from py_index_InrD[OF a] have lt: "ridx st < length (rules st)" and r: "rule = rules st ! ridx st"
    by simp_all
  from c have "rules st1 = rules st \<or> (\<exists>v. rules st1 = (rules st)[ridx st := rule[I_START := v]])"
    by (auto dest: slice_rule_rules bump_rule_rules inc_rule_rules split: if_splits)
  then show ?thesis using d lt r start_only_update[OF lt] by (auto simp: start_only_refl)
qed

lemma native_token_start_only:
  assumes "native_token prog floaters ir st = Inr st'"
  shows "start_only (rules st) (rules st')"
proof -
  from assms have "rules st' = rules st \<or> (\<exists>st1. rules st1 = rules st \<and> apply_rule st1 = Inr st')"
    by (auto simp: native_token_def Let_def elim!: bnd_InrE split: if_splits option.splits)
  then show ?thesis
  proof
    assume "rules st' = rules st"
    then show ?thesis by (simp add: start_only_refl)
  next
    assume "\<exists>st1. rules st1 = rules st \<and> apply_rule st1 = Inr st'"
    then obtain st1 where e: "rules st1 = rules st" and a: "apply_rule st1 = Inr st'" by blast
    from apply_rule_start_only[OF a] e show ?thesis by simp
  qed
qed

lemma native_loop_start_only:
  "native_loop prog floaters irs st = Inr st' \<Longrightarrow> start_only (rules st) (rules st')"
proof (induction irs arbitrary: st)
  case Nil
  then show ?case by (simp add: start_only_refl)
next
  case (Cons ir irs)
  from Cons.prems obtain st1 where
    a: "native_token prog floaters ir st = Inr st1" and b: "native_loop prog floaters irs st1 = Inr st'"
    by (auto elim!: bnd_InrE)
  from native_token_start_only[OF a] Cons.IH[OF b] show ?case by (rule start_only_trans)
qed

lemma native_start_only:
  assumes "native prog rls old = Inr (new, rls')"
  shows "start_only rls rls'"
  using assms
  by (auto simp: native_def start_only_refl elim!: bnd_InrE dest!: native_loop_start_only split: option.splits)

lemma procDir_loop_start_only:
  "procDir_loop prog opts d fs (ol, nl, rls) = Inr (ret, ol', nl', rls') \<Longrightarrow> start_only rls rls'"
proof (induction fs arbitrary: ol nl rls)
  case Nil
  then show ?case by (simp add: start_only_refl)
next
  case (Cons old rest)
  show ?case
  proof (cases "eligible d old")
    case False
    with Cons.prems have "procDir_loop prog opts d rest (ol, nl, rls) = Inr (ret, ol', nl', rls')" by simp
    from Cons.IH[OF this] show ?thesis .
  next
    case True
    with Cons.prems have "\<exists>new rls1. native prog rls old = Inr (new, rls1) \<and>
        (rls' = rls1 \<or> (\<exists>ol1 nl1. procDir_loop prog opts d rest (ol1, nl1, rls1) = Inr (ret, ol', nl', rls')))"
      by (fastforce elim!: bnd_InrE split: if_splits collision.splits)
    then obtain new rls1 where
      n: "native prog rls old = Inr (new, rls1)"
      and k: "rls' = rls1 \<or> (\<exists>ol1 nl1. procDir_loop prog opts d rest (ol1, nl1, rls1) = Inr (ret, ol', nl', rls'))"
      by blast
    from native_start_only[OF n] have s: "start_only rls rls1" .
    from k show ?thesis
    proof
      assume "rls' = rls1" with s show ?thesis by simp
    next
      assume "\<exists>ol1 nl1. procDir_loop prog opts d rest (ol1, nl1, rls1) = Inr (ret, ol', nl', rls')"
      then obtain ol1 nl1 where "procDir_loop prog opts d rest (ol1, nl1, rls1) = Inr (ret, ol', nl', rls')"
        by blast
      from start_only_trans[OF s Cons.IH[OF this]] show ?thesis .
    qed
  qed
qed

lemma procDir_start_only:
  "procDir prog opts d rls = Inr (ret, ol, nl, rls') \<Longrightarrow> start_only rls rls'"
  unfolding procDir_def by (rule procDir_loop_start_only)

lemma reload_rules_start_only:
  "reload_rules idxs rls = Inr rls1 \<Longrightarrow> start_only rls rls1"
proof (induction idxs arbitrary: rls)
  case Nil
  then show ?case by (simp add: start_only_refl)
next
  case (Cons idx idxs)
  from Cons.prems have "\<exists>rule. py_index rls (int idx) = Inr rule \<and>
      (reload_rules idxs rls = Inr rls1
        \<or> (\<exists>rv. reload_rules idxs (rls[idx := rule[I_START := rv]]) = Inr rls1))"
    by (auto elim!: bnd_InrE split: if_splits)
  then obtain rule where a: "py_index rls (int idx) = Inr rule"
    and k: "reload_rules idxs rls = Inr rls1
        \<or> (\<exists>rv. reload_rules idxs (rls[idx := rule[I_START := rv]]) = Inr rls1)"
    by blast
  from py_index_InrD[OF a] have lt: "idx < length rls" and r: "rule = rls ! idx" by simp_all
  from k show ?case
  proof
    assume "reload_rules idxs rls = Inr rls1"
    from Cons.IH[OF this] show ?thesis .
  next
    assume "\<exists>rv. reload_rules idxs (rls[idx := rule[I_START := rv]]) = Inr rls1"
    then obtain rv where "reload_rules idxs (rls[idx := rule[I_START := rv]]) = Inr rls1" by blast
    from Cons.IH[OF this] start_only_update[OF lt, of rv] r show ?thesis
      by (auto intro: start_only_trans)
  qed
qed

lemma procTree_subdirs_start_only:
  assumes "\<And>t rls ret rls' log. t \<in> set ts \<Longrightarrow>
      procTree prog opts ir rD cD t rls = Inr (ret, rls', log) \<Longrightarrow> start_only rls rls'"
  shows "procTree_subdirs prog opts ir rD cD ts r rls = Inr (ret, rls', log) \<Longrightarrow> start_only rls rls'"
  using assms
proof (induction ts arbitrary: r rls ret log)
  case Nil
  then show ?case by (simp add: start_only_refl)
next
  case (Cons t ts)
  from Cons.prems(1) obtain ret1 rls1 log1 where
    a: "procTree prog opts ir rD cD t rls = Inr (ret1, rls1, log1)"
    and k: "rls' = rls1 \<or> (\<exists>ret2 log2. procTree_subdirs prog opts ir rD cD ts ret1 rls1 = Inr (ret2, rls', log2))"
    by (auto elim!: bnd_InrE split: if_splits)
  from Cons.prems(2)[OF _ a] have s: "start_only rls rls1" by simp
  from k show ?case
  proof
    assume "rls' = rls1" with s show ?thesis by simp
  next
    assume "\<exists>ret2 log2. procTree_subdirs prog opts ir rD cD ts ret1 rls1 = Inr (ret2, rls', log2)"
    then obtain ret2 log2 where b: "procTree_subdirs prog opts ir rD cD ts ret1 rls1 = Inr (ret2, rls', log2)"
      by blast
    have "start_only rls1 rls'"
      by (rule Cons.IH[OF b]) (rule Cons.prems(2), simp_all)
    with s show ?thesis by (rule start_only_trans)
  qed
qed

lemma procTree_start_only:
  "procTree prog opts ir rD cD t rls = Inr (ret, rls', log) \<Longrightarrow> start_only rls rls'"
proof (induction t arbitrary: cD rls ret rls' log)
  case (Tree d subdirs)
  from Tree.prems obtain rls1 r1 ol nl rls2 where
    a: "reload_rules ir rls = Inr rls1"
    and b: "procDir prog opts d rls1 = Inr (r1, ol, nl, rls2)"
    and k: "rls' = rls2 \<or> (\<exists>ret3 log3. procTree_subdirs prog opts ir rD (cD + 1) subdirs 0 rls2 = Inr (ret3, rls', log3))"
    by (auto elim!: bnd_InrE split: if_splits)
  have s: "start_only rls rls2"
    using reload_rules_start_only[OF a] procDir_start_only[OF b] by (rule start_only_trans)
  from k show ?case
  proof
    assume "rls' = rls2" with s show ?thesis by simp
  next
    assume "\<exists>ret3 log3. procTree_subdirs prog opts ir rD (cD + 1) subdirs 0 rls2 = Inr (ret3, rls', log3)"
    then obtain ret3 log3 where
      c: "procTree_subdirs prog opts ir rD (cD + 1) subdirs 0 rls2 = Inr (ret3, rls', log3)" by blast
    have "start_only rls2 rls'"
      by (rule procTree_subdirs_start_only[OF _ c]) (rule Tree.IH, simp_all)
    with s show ?thesis by (rule start_only_trans)
  qed
qed

lemma start_only_nth:
  assumes "start_only rls0 rls" "i < length rls0" "6 \<le> length (rls0 ! i)"
  shows "is_inc (rls ! i) = is_inc (rls0 ! i) \<and> has_R (rls ! i) = has_R (rls0 ! i)
     \<and> rls ! i ! I_RELOAD = rls0 ! i ! I_RELOAD \<and> rls ! i ! I_MODE = rls0 ! i ! I_MODE
     \<and> length (rls ! i) = length (rls0 ! i)"
proof -
  from assms(1,2) have len: "length (rls ! i) = length (rls0 ! i)"
    and nth: "\<And>k. k < length (rls0 ! i) \<Longrightarrow> k \<noteq> I_START \<Longrightarrow> rls ! i ! k = rls0 ! i ! k"
    by (auto simp: start_only_def)
  from assms(3) have p: "0 < length (rls0 ! i)" "I_MODE < length (rls0 ! i)"
      "I_RELOAD < length (rls0 ! i)"
    by (auto simp: I_MODE_def I_RELOAD_def)
  have e: "rls ! i ! 0 = rls0 ! i ! 0" "rls ! i ! I_MODE = rls0 ! i ! I_MODE"
       "rls ! i ! I_RELOAD = rls0 ! i ! I_RELOAD"
    using nth[OF p(1)] nth[OF p(2)] nth[OF p(3)]
    by (simp_all add: I_START_def I_MODE_def I_RELOAD_def)
  have ne: "rls ! i \<noteq> []" "rls0 ! i \<noteq> []" using len assms(3) by auto
  then have "hd (rls ! i) = hd (rls0 ! i)" using e(1) by (simp add: hd_conv_nth)
  then show ?thesis using e len ne by (simp add: is_inc_def has_R_def)
qed

lemma start_only_is_inc:
  assumes "start_only rls0 rls" "i < length rls0"
  shows "is_inc (rls ! i) = is_inc (rls0 ! i)"
proof -
  from assms have len: "length (rls ! i) = length (rls0 ! i)"
    and nth: "\<And>k. k < length (rls0 ! i) \<Longrightarrow> k \<noteq> I_START \<Longrightarrow> rls ! i ! k = rls0 ! i ! k"
    by (auto simp: start_only_def)
  show ?thesis
  proof (cases "rls0 ! i = []")
    case True
    then show ?thesis using len by (simp add: is_inc_def)
  next
    case False
    then have ne: "rls ! i \<noteq> []" using len by auto
    from False have "0 < length (rls0 ! i)" by simp
    from nth[OF this] have "rls ! i ! 0 = rls0 ! i ! 0" by (simp add: I_START_def)
    then have "hd (rls ! i) = hd (rls0 ! i)" using False ne by (simp add: hd_conv_nth)
    then show ?thesis using False ne by (simp add: is_inc_def)
  qed
qed

lemma has_R_nonzero:
  "has_R r \<Longrightarrow> r ! I_MODE = PInt m \<Longrightarrow> m \<noteq> 0"
  by (auto simp: has_R_def)

text \<open>
  C5. The rules and irules are those that the command line gives (prep_rules from the
  empty lists), and the current rules differ from them only in start values, as they do
  at every moment of a run. On entering a directory procTree reloads without an error:
  every Insert-Increment rule whose mode has the bit R gets the start value that the
  command gave it, every other rule, with all its parameters, stays as it is, and procDir
  runs on these rules. The rules that procDir and procTree return again differ from the
  initial ones in start values only, so the same holds at the next directory.
\<close>

theorem reload_at_directory:
  assumes p: "prep_rules rulevars args ([], []) = Inr (rls0, irules)"
    and s: "start_only rls0 rls"
  shows "\<exists>rls1. reload_rules irules rls = Inr rls1 \<and> length rls1 = length rls
     \<and> (\<forall>i<length rls.
           if is_inc (rls ! i) \<and> has_R (rls ! i)
           then rls1 ! i = (rls ! i)[I_START := rls0 ! i ! I_START]
              \<and> rls1 ! i ! I_START = rls0 ! i ! I_START
           else rls1 ! i = rls ! i)
     \<and> (\<forall>prog opts rDepth curDepth d subdirs.
           procTree prog opts irules rDepth curDepth (Tree d subdirs) rls =
             bnd (procDir prog opts d rls1) (\<lambda>(ret, oldList, newList, rls2).
               if ret \<noteq> 0 then Inr (1, rls2, [zip oldList newList])
               else if curDepth \<ge> rDepth then Inr (0, rls2, [zip oldList newList])
               else
                 bnd (procTree_subdirs prog opts irules rDepth (curDepth + 1) subdirs 0 rls2)
                   (\<lambda>(ret', rls3, log). Inr (ret', rls3, zip oldList newList # log))))
     \<and> (\<forall>prog opts d ret oldList newList rls2.
           procDir prog opts d rls1 = Inr (ret, oldList, newList, rls2) \<longrightarrow> start_only rls0 rls2)
     \<and> (\<forall>prog opts rDepth curDepth t ret rls' log.
           procTree prog opts irules rDepth curDepth t rls = Inr (ret, rls', log)
             \<longrightarrow> start_only rls0 rls')"
proof -
  from prep_rules_inv[OF p] have
    ir: "irules = filter (\<lambda>i. is_inc (rls0 ! i)) [0 ..< length rls0]"
    and wf: "\<forall>r\<in>set rls0. is_inc r \<longrightarrow>
        6 \<le> length r \<and> (\<exists>m. r ! I_MODE = PInt m \<and> (m \<noteq> 0 \<longrightarrow> r ! I_RELOAD = r ! I_START))"
    by simp_all
  from s have len: "length rls = length rls0" by (simp add: start_only_def)
  have mem: "\<And>i. i \<in> set irules \<longleftrightarrow> i < length rls0 \<and> is_inc (rls0 ! i)"
    unfolding ir by auto
  have inc: "\<And>i. i < length rls0 \<Longrightarrow> is_inc (rls0 ! i) \<Longrightarrow>
      6 \<le> length (rls0 ! i) \<and> (\<exists>m. rls0 ! i ! I_MODE = PInt m \<and> (m \<noteq> 0 \<longrightarrow> rls0 ! i ! I_RELOAD = rls0 ! i ! I_START))"
    using wf by (meson nth_mem)
  have pre: "\<forall>i\<in>set irules. i < length rls \<and> 6 \<le> length (rls ! i) \<and> (\<exists>m. rls ! i ! I_MODE = PInt m)"
  proof
    fix i assume "i \<in> set irules"
    then have a: "i < length rls0" "is_inc (rls0 ! i)" using mem by simp_all
    from inc[OF a] start_only_nth[OF s a(1)] a(1) len
    show "i < length rls \<and> 6 \<le> length (rls ! i) \<and> (\<exists>m. rls ! i ! I_MODE = PInt m)" by auto
  qed
  from reload_rules_spec[OF pre] obtain rls1 where
    r: "reload_rules irules rls = Inr rls1" and l1: "length rls1 = length rls"
    and n1: "\<forall>i<length rls. rls1 ! i =
        (if i \<in> set irules \<and> has_R (rls ! i) then (rls ! i)[I_START := rls ! i ! I_RELOAD] else rls ! i)"
    by blast
  have vals: "\<forall>i<length rls.
           if is_inc (rls ! i) \<and> has_R (rls ! i)
           then rls1 ! i = (rls ! i)[I_START := rls0 ! i ! I_START]
              \<and> rls1 ! i ! I_START = rls0 ! i ! I_START
           else rls1 ! i = rls ! i"
  proof (intro allI impI)
    fix i assume il: "i < length rls"
    then have il0: "i < length rls0" using len by simp
    have e: "is_inc (rls ! i) = is_inc (rls0 ! i)" by (rule start_only_is_inc[OF s il0])
    have m: "i \<in> set irules \<longleftrightarrow> is_inc (rls ! i)" using mem[of i] il0 e by simp
    from n1 il have n: "rls1 ! i =
        (if is_inc (rls ! i) \<and> has_R (rls ! i) then (rls ! i)[I_START := rls ! i ! I_RELOAD] else rls ! i)"
      using m by simp
    show "if is_inc (rls ! i) \<and> has_R (rls ! i)
           then rls1 ! i = (rls ! i)[I_START := rls0 ! i ! I_START]
              \<and> rls1 ! i ! I_START = rls0 ! i ! I_START
           else rls1 ! i = rls ! i"
    proof (cases "is_inc (rls ! i) \<and> has_R (rls ! i)")
      case False
      with n have "rls1 ! i = rls ! i" by auto
      with False show ?thesis by auto
    next
      case True
      then have i0: "is_inc (rls0 ! i)" using e by simp
      from inc[OF il0 i0] obtain m where l6: "6 \<le> length (rls0 ! i)"
        and md: "rls0 ! i ! I_MODE = PInt m"
        and rl: "m \<noteq> 0 \<longrightarrow> rls0 ! i ! I_RELOAD = rls0 ! i ! I_START" by blast
      from start_only_nth[OF s il0 l6] have t: "has_R (rls ! i) = has_R (rls0 ! i)"
        "rls ! i ! I_RELOAD = rls0 ! i ! I_RELOAD" "length (rls ! i) = length (rls0 ! i)" by simp_all
      from True t(1) have "has_R (rls0 ! i)" by simp
      from has_R_nonzero[OF this md] rl have "rls0 ! i ! I_RELOAD = rls0 ! i ! I_START" by simp
      with t(2) have v: "rls ! i ! I_RELOAD = rls0 ! i ! I_START" by simp
      have "I_START < length (rls ! i)" using t(3) l6 by (simp add: I_START_def)
      then show ?thesis using n True v by simp
    qed
  qed
  have unf: "\<forall>prog opts rDepth curDepth d subdirs.
           procTree prog opts irules rDepth curDepth (Tree d subdirs) rls =
             bnd (procDir prog opts d rls1) (\<lambda>(ret, oldList, newList, rls2).
               if ret \<noteq> 0 then Inr (1, rls2, [zip oldList newList])
               else if curDepth \<ge> rDepth then Inr (0, rls2, [zip oldList newList])
               else
                 bnd (procTree_subdirs prog opts irules rDepth (curDepth + 1) subdirs 0 rls2)
                   (\<lambda>(ret', rls3, log). Inr (ret', rls3, zip oldList newList # log)))"
    using r by (simp add: bnd_def)
  have s1: "start_only rls0 rls1"
    using s reload_rules_start_only[OF r] by (rule start_only_trans)
  have pd: "\<forall>prog opts d ret oldList newList rls2.
           procDir prog opts d rls1 = Inr (ret, oldList, newList, rls2) \<longrightarrow> start_only rls0 rls2"
    using s1 procDir_start_only start_only_trans by blast
  have pt: "\<forall>prog opts rDepth curDepth t ret rls' log.
           procTree prog opts irules rDepth curDepth t rls = Inr (ret, rls', log)
             \<longrightarrow> start_only rls0 rls'"
    using s procTree_start_only start_only_trans by blast
  from r l1 vals unf pd pt show ?thesis by blast
qed

text \<open>
  The command \<open>my* my*:: I/A///R I/5/10/2\<close> of the recursive test: after the first
  directory the inserters stand at C and 25; the reload puts the first back to A and
  leaves the second at 25, and the second directory gets A25 and B35.
\<close>

theorem reload_at_directory_witness:
  "(let rls0 = [[PStr ''I'', PStr ''A'', PInt 1, PInt 1, PInt 2, PStr ''A''],
                [PStr ''I'', PInt 5, PInt 10, PInt 2, PInt 0, PInt 0]];
        rls = [[PStr ''I'', PStr ''C'', PInt 1, PInt 1, PInt 2, PStr ''A''],
               [PStr ''I'', PInt 25, PInt 10, PInt 2, PInt 0, PInt 0]]
    in native_setup True ''my*'' ''my*::'' [''I/A///R'', ''I/5/10/2'']
         = Inr (pets_program, rls0, [0, 1])
     \<and> prep_rules ['':'', '':''] [''I/A///R'', ''I/5/10/2''] ([], []) = Inr (rls0, [0, 1])
     \<and> procDir pets_program default_options pets_directory rls0
         = Inr (0, [''my_Cat.png'', ''my_Dog.png''], [''my_CatA05.png'', ''my_DogB15.png''], rls)
     \<and> start_only rls0 rls
     \<and> reload_rules [0, 1] rls
         = Inr [[PStr ''I'', PStr ''A'', PInt 1, PInt 1, PInt 2, PStr ''A''],
                [PStr ''I'', PInt 25, PInt 10, PInt 2, PInt 0, PInt 0]]
     \<and> procTree pets_program default_options [0, 1] 1 0
           (Tree pets_directory [Tree pets_directory []]) rls0
         = Inr (0, [[PStr ''I'', PStr ''C'', PInt 1, PInt 1, PInt 2, PStr ''A''],
                    [PStr ''I'', PInt 45, PInt 10, PInt 2, PInt 0, PInt 0]],
                [[(''my_Cat.png'', ''my_CatA05.png''), (''my_Dog.png'', ''my_DogB15.png'')],
                 [(''my_Cat.png'', ''my_CatA25.png''), (''my_Dog.png'', ''my_DogB35.png'')]]))"
proof -
  let ?init = "[[PStr ''I'', PStr ''A'', PInt 1, PInt 1, PInt 2, PStr ''A''],
                [PStr ''I'', PInt 5, PInt 10, PInt 2, PInt 0, PInt 0]]"
  let ?cur = "[[PStr ''I'', PStr ''C'', PInt 1, PInt 1, PInt 2, PStr ''A''],
               [PStr ''I'', PInt 25, PInt 10, PInt 2, PInt 0, PInt 0]]"
  have su: "native_setup True ''my*'' ''my*::'' [''I/A///R'', ''I/5/10/2'']
         = Inr (pets_program, ?init, [0, 1])" by code_simp
  have h1: "prep_rules ['':'', '':''] [''I/A///R'', ''I/5/10/2''] ([], []) = Inr (?init, [0, 1])"
    by code_simp
  have pd: "procDir pets_program default_options pets_directory ?init
         = Inr (0, [''my_Cat.png'', ''my_Dog.png''], [''my_CatA05.png'', ''my_DogB15.png''], ?cur)"
    by code_simp
  let ?mid = "[[PStr ''I'', PStr ''C'', PInt 1, PInt 1, PInt 2, PStr ''A''],
               [PStr ''I'', PInt 5, PInt 10, PInt 2, PInt 0, PInt 0]]"
  have "start_only ?init (?init[0 := (?init ! 0)[I_START := PStr ''C'']])"
    by (rule start_only_update) simp
  then have m1: "start_only ?init ?mid" by (simp add: I_START_def)
  have "start_only ?mid (?mid[1 := (?mid ! 1)[I_START := PInt 25]])"
    by (rule start_only_update) simp
  then have m2: "start_only ?mid ?cur" by (simp add: I_START_def)
  from m1 m2 have h2: "start_only ?init ?cur" by (rule start_only_trans)
  have pt: "procTree pets_program default_options [0, 1] 1 0
           (Tree pets_directory [Tree pets_directory []]) ?init
         = Inr (0, [[PStr ''I'', PStr ''C'', PInt 1, PInt 1, PInt 2, PStr ''A''],
                    [PStr ''I'', PInt 45, PInt 10, PInt 2, PInt 0, PInt 0]],
                [[(''my_Cat.png'', ''my_CatA05.png''), (''my_Dog.png'', ''my_DogB15.png'')],
                 [(''my_Cat.png'', ''my_CatA25.png''), (''my_Dog.png'', ''my_DogB35.png'')]])"
    by code_simp
  from reload_at_directory[OF h1 h2] obtain rls1 where
    r: "reload_rules [0, 1] ?cur = Inr rls1" and l: "length rls1 = length ?cur"
    and v: "\<forall>i<length ?cur.
           if is_inc (?cur ! i) \<and> has_R (?cur ! i)
           then rls1 ! i = (?cur ! i)[I_START := ?init ! i ! I_START]
              \<and> rls1 ! i ! I_START = ?init ! i ! I_START
           else rls1 ! i = ?cur ! i"
    by (elim exE conjE) (rule that, assumption+)
  have i0: "is_inc (?cur ! 0) \<and> has_R (?cur ! 0)" by code_simp
  have i1: "\<not> (is_inc (?cur ! 1) \<and> has_R (?cur ! 1))" by code_simp
  from v i0 have e0: "rls1 ! 0 = [PStr ''I'', PStr ''A'', PInt 1, PInt 1, PInt 2, PStr ''A'']"
    by (simp add: I_START_def)
  from v i1 have e1: "rls1 ! 1 = [PStr ''I'', PInt 25, PInt 10, PInt 2, PInt 0, PInt 0]"
    by simp
  have "rls1 = [rls1 ! 0, rls1 ! 1]"
    using l by (cases rls1; cases "tl rls1"; cases "tl (tl rls1)") auto
  with e0 e1 have "rls1 = [[PStr ''I'', PStr ''A'', PInt 1, PInt 1, PInt 2, PStr ''A''],
                [PStr ''I'', PInt 25, PInt 10, PInt 2, PInt 0, PInt 0]]" by simp
  with r have rr: "reload_rules [0, 1] ?cur
         = Inr [[PStr ''I'', PStr ''A'', PInt 1, PInt 1, PInt 2, PStr ''A''],
                [PStr ''I'', PInt 25, PInt 10, PInt 2, PInt 0, PInt 0]]" by simp
  from su h1 pd h2 rr pt show ?thesis unfolding Let_def by (intro conjI)
qed

subsection \<open>The structural filter\<close>






















end
